theory Spec2Isabelle
  imports Complex_Main "HOL-Library.AList"
begin

section \<open>Values, dictionaries and timestamps\<close>

text \<open>
  The engine of \<^verbatim>\<open>src/ali_core/intent.py\<close> keeps its tasks, behaviour records and
  patterns as JSON-like Python values. A dictionary is an association list in insertion
  order; \<open>AList.update\<close> is Python's \<^verbatim>\<open>d[k] = v\<close> (replace in place, or append a
  new key) and \<open>map_of\<close> is the lookup.

  A string that \<^verbatim>\<open>datetime.fromisoformat\<close> accepts is kept in parsed form:
  \<open>JTime t\<close> is the ISO text of the naive datetime that lies \<open>t\<close> microseconds after
  0001-01-01T00:00:00 (a Monday), \<open>JTimeTz t off\<close> the ISO text of an offset-aware
  datetime with wall-clock time \<open>t\<close>. \<open>JStr\<close> holds every other string. \<open>JNum\<close> is a
  Python float. Text is ASCII.
\<close>

datatype jval =
    JNull
  | JBool bool
  | JInt int
  | JNum rat
  | JStr string
  | JTime int
  | JTimeTz int int
  | JList "jval list"
  | JDict "(string \<times> jval) list"

type_synonym jdict = "(string \<times> jval) list"

datatype error = TypeError | ValueError | OverflowError | IndexError | AttributeError

datatype log_entry =
    MissingTaskType
  | MissingRecurringTaskType
  | MissingRecurrencePattern
  | TaskNotFound int
  | SaveFailed
  | LoopError error
  | TaskFailed error

datatype task_message =
    Executing jval
  | Reminder jval
  | CollectingData jval
  | SendingMessage jval
  | RunningSystemTask jval
  | PreparingContent jval
  | ExecutedSuccessfully jval

datatype dt = Naive int | Aware int int

definition get :: "jdict \<Rightarrow> string \<Rightarrow> jval \<Rightarrow> jval" where
  \<comment> \<open>\<^verbatim>\<open>d.get(k, default)\<close>\<close>
  "get d k dflt = (case map_of d k of None \<Rightarrow> dflt | Some v \<Rightarrow> v)"

definition has_key :: "string \<Rightarrow> jdict \<Rightarrow> bool" where
  \<comment> \<open>\<^verbatim>\<open>k in d\<close>\<close>
  "has_key k d = (map_of d k \<noteq> None)"

fun truthy :: "jval \<Rightarrow> bool" where
  "truthy JNull = False"
| "truthy (JBool b) = b"
| "truthy (JInt i) = (i \<noteq> 0)"
| "truthy (JNum r) = (r \<noteq> 0)"
| "truthy (JStr s) = (s \<noteq> [])"
| "truthy (JTime t) = True"
| "truthy (JTimeTz t off) = True"
| "truthy (JList xs) = (xs \<noteq> [])"
| "truthy (JDict d) = (d \<noteq> [])"

fun fromisoformat :: "jval \<Rightarrow> error + dt" where
  "fromisoformat (JTime t) = Inr (Naive t)"
| "fromisoformat (JTimeTz t off) = Inr (Aware t off)"
| "fromisoformat (JStr s) = Inl ValueError"
| "fromisoformat v = Inl TypeError"

fun dt_ge :: "int \<Rightarrow> dt \<Rightarrow> error + bool" where
  \<comment> \<open>\<^verbatim>\<open>now >= d\<close> with \<^verbatim>\<open>now\<close> naive: comparing with an aware datetime raises\<close>
  "dt_ge now (Naive t) = Inr (now \<ge> t)"
| "dt_ge now (Aware t off) = Inl TypeError"

section \<open>The engine and its environment\<close>

text \<open>
  The fields of \<^verbatim>\<open>AliIntent\<close> that the scheduler, the task store and the classifier
  read or write, followed by counters for what one instance has asked of its
  environment: \<open>ticks\<close> counts the reads of \<^verbatim>\<open>datetime.now()\<close>, \<open>draws\<close> the calls
  of \<^verbatim>\<open>random.random()\<close>, \<open>saves\<close> the calls of \<^verbatim>\<open>save_intent_data\<close>;
  \<open>sleeps\<close> lists the arguments of \<^verbatim>\<open>time.sleep\<close>, \<open>error_log\<close> the messages
  given to \<^verbatim>\<open>logger.error\<close> and \<open>task_log\<close> the messages that \<^verbatim>\<open>_execute_task\<close>
  and its handlers give to \<^verbatim>\<open>logger.info\<close>, each with the value it prints, latest last
  (the other messages are left out).
  Every list entry is a dictionary object of its own, as after loading the JSON file.
\<close>

record engine =
  intent_patterns :: jdict
  behavior_history :: "jval list"
  task_queue :: "jdict list"
  recurring_tasks :: "jdict list"
  active :: bool
  ticks :: nat
  draws :: nat
  saves :: nat
  sleeps :: "nat list"
  error_log :: "log_entry list"
  task_log :: "task_message list"

text \<open>
  The environment answers: the \<open>k\<close>-th clock reading, the \<open>k\<close>-th random draw, whether
  the \<open>k\<close>-th write of the JSON file succeeds, the microseconds of
  \<^verbatim>\<open>timedelta(hours=x)\<close> for a float \<open>x\<close>, and whether another thread has called
  \<^verbatim>\<open>stop_background_processing\<close> by the end of the \<open>k\<close>-th cycle of the loop.
\<close>

record env =
  clk :: "nat \<Rightarrow> int"
  rnd :: "nat \<Rightarrow> rat"
  disk_ok :: "nat \<Rightarrow> bool"
  float_hours :: "rat \<Rightarrow> error + int"
  stop_called :: "nat \<Rightarrow> bool"

definition read_clock :: "env \<Rightarrow> engine \<Rightarrow> int \<times> engine" where
  \<comment> \<open>\<^verbatim>\<open>datetime.now()\<close>\<close>
  "read_clock ev s = (clk ev (ticks s), s\<lparr>ticks := Suc (ticks s)\<rparr>)"

definition random_draw :: "env \<Rightarrow> engine \<Rightarrow> rat \<times> engine" where
  \<comment> \<open>\<^verbatim>\<open>random.random()\<close>\<close>
  "random_draw ev s = (rnd ev (draws s), s\<lparr>draws := Suc (draws s)\<rparr>)"

section \<open>Behaviour ledger and task execution\<close>

definition last_n :: "nat \<Rightarrow> 'a list \<Rightarrow> 'a list" where
  \<comment> \<open>\<^verbatim>\<open>xs[-n:]\<close> for \<open>n > 0\<close>\<close>
  "last_n n xs = drop (length xs - n) xs"

definition record_behavior :: "jval \<Rightarrow> engine \<Rightarrow> engine" where
  "record_behavior behavior_data s =
     (let h = behavior_history s @ [behavior_data]
      in s\<lparr>behavior_history := (if length h > 200 then last_n 200 h else h)\<rparr>)"

definition log_error :: "log_entry \<Rightarrow> engine \<Rightarrow> engine" where
  "log_error m s = s\<lparr>error_log := error_log s @ [m]\<rparr>"

definition log_info :: "task_message \<Rightarrow> engine \<Rightarrow> engine" where
  "log_info m s = s\<lparr>task_log := task_log s @ [m]\<rparr>"

definition run_handler :: "jval \<Rightarrow> jdict \<Rightarrow> engine \<Rightarrow> engine" where
  \<comment> \<open>the \<^verbatim>\<open>if\<close>/\<^verbatim>\<open>elif\<close> chain on the task type; a type without handler does nothing\<close>
  "run_handler task_type task s =
     (if task_type = JStr ''reminder'' then
        log_info (Reminder (get task ''content'' (JStr ''No content''))) s
      else if task_type = JStr ''data_collection'' then
        log_info (CollectingData (get task ''target'' (JStr ''Unknown''))) s
      else if task_type = JStr ''message'' then
        log_info (SendingMessage (get task ''content'' (JStr ''No content''))) s
      else if task_type = JStr ''system_task'' then
        log_info (RunningSystemTask (get task ''action'' (JStr ''Unknown''))) s
      else if task_type = JStr ''content_preparation'' then
        log_info (PreparingContent (get task ''description'' (JStr ''Unknown''))) s
      else s)"

definition execute_body :: "env \<Rightarrow> jval \<Rightarrow> jdict \<Rightarrow> engine \<Rightarrow> (error + bool) \<times> engine" where
  \<comment> \<open>the \<^verbatim>\<open>try\<close> block of \<^verbatim>\<open>_execute_task\<close>: the behaviour record, the handler of the
      type, the closing message\<close>
  "execute_body ev task_type task s =
     (let (ts, s1) = read_clock ev s;
          s2 = record_behavior
                 (JDict [(''type'', JStr ''task_execution''), (''task'', JDict task),
                         (''timestamp'', JTime ts)]) s1;
          s3 = run_handler task_type task s2;
          s4 = log_info (ExecutedSuccessfully task_type) s3
      in (Inr True, s4))"

definition execute_task :: "env \<Rightarrow> jdict \<Rightarrow> engine \<Rightarrow> bool \<times> engine" where
  "execute_task ev task s =
     (let task_type = get task ''type'' (JStr ''unknown'');
          s1 = log_info (Executing task_type) s
      in case execute_body ev task_type task s1 of
           (Inr b, s') \<Rightarrow> (b, s')
         | (Inl e, s') \<Rightarrow> (False, log_error (TaskFailed e) s'))"

section \<open>The due-task sweep\<close>

definition del_at :: "nat \<Rightarrow> 'a list \<Rightarrow> error + 'a list" where
  \<comment> \<open>\<^verbatim>\<open>del xs[i]\<close> for \<open>i \<ge> 0\<close>\<close>
  "del_at i xs = (if i < length xs then Inr (take i xs @ drop (Suc i) xs) else Inl IndexError)"

fun del_all :: "nat list \<Rightarrow> 'a list \<Rightarrow> error + 'a list" where
  "del_all [] xs = Inr xs"
| "del_all (i # is) xs = (case del_at i xs of Inl e \<Rightarrow> Inl e | Inr xs' \<Rightarrow> del_all is xs')"

text \<open>
  The sweep calls the method \<^verbatim>\<open>_execute_task\<close> of the instance. \<open>ptq_loop\<close> and
  \<open>process_task_queue_with\<close> take the method as their first argument, so that what the
  sweep does with the answer of the method is stated for any answer;
  \<open>process_task_queue\<close> is the sweep of the class, with the method defined above.
\<close>

fun ptq_loop ::
  "(jdict \<Rightarrow> engine \<Rightarrow> bool \<times> engine) \<Rightarrow> int \<Rightarrow> (nat \<times> jdict) list \<Rightarrow> nat list \<Rightarrow> engine
     \<Rightarrow> (error + nat list) \<times> engine" where
  "ptq_loop ex now [] tasks_to_remove s = (Inr tasks_to_remove, s)"
| "ptq_loop ex now ((i, task) # rest) tasks_to_remove s =
     (if has_key ''scheduled_time'' task then
        (case fromisoformat (get task ''scheduled_time'' JNull) of
           Inl e \<Rightarrow> (Inl e, s)
         | Inr scheduled_time \<Rightarrow>
            (case dt_ge now scheduled_time of
               Inl e \<Rightarrow> (Inl e, s)
             | Inr True \<Rightarrow>
                 (let (success, s') = ex task s
                  in if success \<or> truthy (get task ''remove_on_failure'' (JBool True))
                     then ptq_loop ex now rest (tasks_to_remove @ [i]) s'
                     else ptq_loop ex now rest tasks_to_remove s')
             | Inr False \<Rightarrow> ptq_loop ex now rest tasks_to_remove s))
      else
        (let (success, s') = ex task s
         in if success \<or> truthy (get task ''remove_on_failure'' (JBool True))
            then ptq_loop ex now rest (tasks_to_remove @ [i]) s'
            else ptq_loop ex now rest tasks_to_remove s'))"

definition process_task_queue_with ::
  "(jdict \<Rightarrow> engine \<Rightarrow> bool \<times> engine) \<Rightarrow> env \<Rightarrow> engine \<Rightarrow> (error + unit) \<times> engine" where
  "process_task_queue_with ex ev s =
     (let (now, s1) = read_clock ev s
      in case ptq_loop ex now (enumerate 0 (task_queue s1)) [] s1 of
           (Inl e, s2) \<Rightarrow> (Inl e, s2)
         | (Inr tasks_to_remove, s2) \<Rightarrow>
             (case del_all (rev (sort tasks_to_remove)) (task_queue s2) of
                Inl e \<Rightarrow> (Inl e, s2)
              | Inr q \<Rightarrow> (Inr (), s2\<lparr>task_queue := q\<rparr>)))"

definition process_task_queue :: "env \<Rightarrow> engine \<Rightarrow> (error + unit) \<times> engine" where
  "process_task_queue ev s = process_task_queue_with (execute_task ev) ev s"

text \<open>
  The sweep reads the clock once; \<open>is_due\<close> is its test on a task whose
  \<^verbatim>\<open>scheduled_time\<close> is absent or a naive timestamp (\<open>sched_ok\<close>), and
  \<open>execute_all\<close> runs the method on the given tasks, first to last.
\<close>

definition sched_ok :: "jdict \<Rightarrow> bool" where
  "sched_ok task = (case map_of task ''scheduled_time'' of
                      None \<Rightarrow> True | Some (JTime t) \<Rightarrow> True | Some v \<Rightarrow> False)"

definition is_due :: "int \<Rightarrow> jdict \<Rightarrow> bool" where
  "is_due now task = (case map_of task ''scheduled_time'' of
                        None \<Rightarrow> True | Some (JTime t) \<Rightarrow> t \<le> now | Some v \<Rightarrow> False)"

definition execute_all ::
  "(jdict \<Rightarrow> engine \<Rightarrow> bool \<times> engine) \<Rightarrow> jdict list \<Rightarrow> engine \<Rightarrow> engine" where
  "execute_all ex tasks s = fold (\<lambda>task s. snd (ex task s)) tasks s"

definition marked :: "('a \<Rightarrow> bool) \<Rightarrow> 'a list \<Rightarrow> nat list" where
  \<comment> \<open>the indices, ascending, of the entries that satisfy \<open>P\<close>\<close>
  "marked P xs = map fst (filter (\<lambda>p. P (snd p)) (enumerate 0 xs))"

section \<open>Persistence and the task store\<close>

definition save_intent_data :: "env \<Rightarrow> engine \<Rightarrow> bool \<times> engine" where
  \<comment> \<open>trims the history to its last 100 records, stamps \<^verbatim>\<open>last_updated\<close> and writes
      the file; a failed write is logged and answered with \<^verbatim>\<open>False\<close>\<close>
  "save_intent_data ev s =
     (let h = behavior_history s;
          s1 = s\<lparr>behavior_history := (if length h > 100 then last_n 100 h else h)\<rparr>;
          (last_updated, s2) = read_clock ev s1;
          ok = disk_ok ev (saves s2);
          s3 = s2\<lparr>saves := Suc (saves s2)\<rparr>
      in if ok then (True, s3) else (False, log_error SaveFailed s3))"

definition add_task :: "env \<Rightarrow> jdict \<Rightarrow> engine \<Rightarrow> bool \<times> engine" where
  "add_task ev task_data s =
     (if \<not> has_key ''type'' task_data then (False, log_error MissingTaskType s)
      else
        (let (created, s1) = read_clock ev s;
             task_data' = AList.update ''created'' (JTime created) task_data;
             s2 = s1\<lparr>task_queue := task_queue s1 @ [task_data']\<rparr>;
             (saved, s3) = save_intent_data ev s2
         in (True, s3)))"

definition add_recurring_task :: "env \<Rightarrow> jdict \<Rightarrow> engine \<Rightarrow> bool \<times> engine" where
  "add_recurring_task ev task_data s =
     (if \<not> has_key ''type'' task_data then (False, log_error MissingRecurringTaskType s)
      else if \<not> list_ex (\<lambda>key. has_key key task_data)
                   [''interval_hours'', ''day_of_week'', ''trigger_pattern'']
      then (False, log_error MissingRecurrencePattern s)
      else
        (let (created, s1) = read_clock ev s;
             task_data' = AList.update ''active'' (JBool True)
                            (AList.update ''created'' (JTime created) task_data);
             s2 = s1\<lparr>recurring_tasks := recurring_tasks s1 @ [task_data']\<rparr>;
             (saved, s3) = save_intent_data ev s2
         in (True, s3)))"

definition remove_task :: "env \<Rightarrow> int \<Rightarrow> engine \<Rightarrow> bool \<times> engine" where
  \<comment> \<open>\<^verbatim>\<open>pop(task_id)\<close> runs only for \<open>0 \<le> task_id < len\<close>, where it cannot raise\<close>
  "remove_task ev task_id s =
     (if 0 \<le> task_id \<and> task_id < int (length (task_queue s)) then
        (let q = task_queue s;
             s1 = s\<lparr>task_queue := take (nat task_id) q @ drop (Suc (nat task_id)) q\<rparr>;
             (saved, s2) = save_intent_data ev s1
         in (True, s2))
      else (False, log_error (TaskNotFound task_id) s))"

section \<open>The recurring-task sweep\<close>

definition us_per_hour :: int where
  "us_per_hour = 3600000000"

definition us_per_day :: int where
  "us_per_day = 86400000000"

definition int_hours :: "int \<Rightarrow> error + int" where
  \<comment> \<open>\<^verbatim>\<open>timedelta(hours=h)\<close> in microseconds; a timedelta holds at most 999999999 days\<close>
  "int_hours h =
     (if - 999999999 \<le> h div 24 \<and> h div 24 \<le> 999999999 then Inr (h * us_per_hour)
      else Inl OverflowError)"

fun timedelta_hours :: "env \<Rightarrow> jval \<Rightarrow> error + int" where
  "timedelta_hours ev (JInt h) = int_hours h"
| "timedelta_hours ev (JBool b) = int_hours (if b then 1 else 0)"
| "timedelta_hours ev (JNum x) = float_hours ev x"
| "timedelta_hours ev v = Inl TypeError"

fun dt_minus :: "int \<Rightarrow> dt \<Rightarrow> error + int" where
  \<comment> \<open>\<^verbatim>\<open>now - d\<close> with \<^verbatim>\<open>now\<close> naive\<close>
  "dt_minus now (Naive t) = Inr (now - t)"
| "dt_minus now (Aware t off) = Inl TypeError"

fun dt_date :: "dt \<Rightarrow> int" where
  "dt_date (Naive t) = t div us_per_day"
| "dt_date (Aware t off) = t div us_per_day"

definition weekday :: "int \<Rightarrow> int" where
  \<comment> \<open>0 = Monday\<close>
  "weekday now = (now div us_per_day) mod 7"

definition hour_of :: "int \<Rightarrow> int" where
  "hour_of now = (now div us_per_hour) mod 24"

fun int_eq :: "int \<Rightarrow> jval \<Rightarrow> bool" where
  \<comment> \<open>\<^verbatim>\<open>i == v\<close> for a Python int \<open>i\<close>\<close>
  "int_eq i (JInt j) = (i = j)"
| "int_eq i (JBool b) = (i = (if b then 1 else 0))"
| "int_eq i (JNum x) = (of_int i = x)"
| "int_eq i v = False"

definition parse_last_execution :: "jdict \<Rightarrow> error + dt option" where
  "parse_last_execution task =
     (if has_key ''last_execution'' task then
        (case fromisoformat (get task ''last_execution'' JNull) of
           Inl e \<Rightarrow> Inl e
         | Inr d \<Rightarrow> Inr (Some d))
      else Inr None)"

definition should_execute ::
  "env \<Rightarrow> int \<Rightarrow> jdict \<Rightarrow> dt option \<Rightarrow> engine \<Rightarrow> (error + bool) \<times> engine" where
  "should_execute ev now task last_execution s =
     (if has_key ''interval_hours'' task then
        (case timedelta_hours ev (get task ''interval_hours'' JNull) of
           Inl e \<Rightarrow> (Inl e, s)
         | Inr interval \<Rightarrow>
            (case last_execution of
               None \<Rightarrow> (Inr True, s)
             | Some d \<Rightarrow>
                (case dt_minus now d of
                   Inl e \<Rightarrow> (Inl e, s)
                 | Inr elapsed \<Rightarrow> (Inr (elapsed \<ge> interval), s))))
      else if has_key ''day_of_week'' task then
        (if int_eq (weekday now) (get task ''day_of_week'' JNull) then
           (if (case last_execution of None \<Rightarrow> True
                | Some d \<Rightarrow> dt_date d \<noteq> dt_date (Naive now)) then
              (if has_key ''hour_of_day'' task
               then (Inr (int_eq (hour_of now) (get task ''hour_of_day'' JNull)), s)
               else (Inr True, s))
            else (Inr False, s))
         else (Inr False, s))
      else if has_key ''trigger_pattern'' task then
        (let (r, s') = random_draw ev s in (Inr (r < 5 / 100), s'))
      else (Inr False, s))"

text \<open>
  The loop updates the records of the table in place. \<open>crt_loop\<close> walks the records
  that are still to be visited and returns them as the loop leaves them; when a record
  raises, it and the records after it are returned as they were.
\<close>

fun crt_loop ::
  "env \<Rightarrow> int \<Rightarrow> jdict list \<Rightarrow> engine \<Rightarrow> (error + unit) \<times> jdict list \<times> engine" where
  "crt_loop ev now [] s = (Inr (), [], s)"
| "crt_loop ev now (task # rest) s =
     (if \<not> truthy (get task ''active'' (JBool True)) then
        (let (r, rest', s') = crt_loop ev now rest s in (r, task # rest', s'))
      else
        (case parse_last_execution task of
           Inl e \<Rightarrow> (Inl e, task # rest, s)
         | Inr last_execution \<Rightarrow>
            (case should_execute ev now task last_execution s of
               (Inl e, s1) \<Rightarrow> (Inl e, task # rest, s1)
             | (Inr True, s1) \<Rightarrow>
                 (let queue_task = AList.update ''scheduled_time'' (JTime now) task;
                      s2 = s1\<lparr>task_queue := task_queue s1 @ [queue_task]\<rparr>;
                      task' = AList.update ''last_execution'' (JTime now) task;
                      (r, rest', s3) = crt_loop ev now rest s2
                  in (r, task' # rest', s3))
             | (Inr False, s1) \<Rightarrow>
                 (let (r, rest', s') = crt_loop ev now rest s1 in (r, task # rest', s')))))"

definition check_recurring_tasks :: "env \<Rightarrow> engine \<Rightarrow> (error + unit) \<times> engine" where
  "check_recurring_tasks ev s =
     (let (now, s1) = read_clock ev s;
          (r, tasks', s2) = crt_loop ev now (recurring_tasks s1) s1
      in (r, s2\<lparr>recurring_tasks := tasks'\<rparr>))"

text \<open>
  For the statements about the recurring sweep: \<open>crt_fired\<close> flags the records on which
  \<open>crt_loop\<close> takes its \<^verbatim>\<open>if should_execute\<close> branch; \<open>stamp_fired\<close> sets
  \<^verbatim>\<open>last_execution\<close> on the flagged records of a table and \<open>copies_fired\<close> lists their
  copies stamped with \<^verbatim>\<open>scheduled_time\<close>. \<open>rec_ok\<close> holds of a record whose
  \<^verbatim>\<open>last_execution\<close> is absent or a naive timestamp and whose \<^verbatim>\<open>interval_hours\<close> is
  absent or a number of hours that a timedelta can hold.
\<close>

fun crt_fired :: "env \<Rightarrow> int \<Rightarrow> jdict list \<Rightarrow> engine \<Rightarrow> bool list" where
  "crt_fired ev now [] s = []"
| "crt_fired ev now (task # rest) s =
     (if \<not> truthy (get task ''active'' (JBool True)) then False # crt_fired ev now rest s
      else
        (case parse_last_execution task of
           Inl e \<Rightarrow> replicate (Suc (length rest)) False
         | Inr last_execution \<Rightarrow>
            (case should_execute ev now task last_execution s of
               (Inl e, s1) \<Rightarrow> replicate (Suc (length rest)) False
             | (Inr True, s1) \<Rightarrow>
                 True # crt_fired ev now rest
                   (s1\<lparr>task_queue := task_queue s1 @
                         [AList.update ''scheduled_time'' (JTime now) task]\<rparr>)
             | (Inr False, s1) \<Rightarrow> False # crt_fired ev now rest s1)))"

definition stamp_fired :: "int \<Rightarrow> bool list \<Rightarrow> jdict list \<Rightarrow> jdict list" where
  "stamp_fired now fired tasks =
     map (\<lambda>(f, task). if f then AList.update ''last_execution'' (JTime now) task else task)
         (zip fired tasks)"

definition copies_fired :: "int \<Rightarrow> bool list \<Rightarrow> jdict list \<Rightarrow> jdict list" where
  "copies_fired now fired tasks =
     map (\<lambda>(f, task). AList.update ''scheduled_time'' (JTime now) task)
         (filter fst (zip fired tasks))"

definition rec_ok :: "jdict \<Rightarrow> bool" where
  "rec_ok task =
     ((case map_of task ''last_execution'' of
         None \<Rightarrow> True | Some (JTime t) \<Rightarrow> True | Some v \<Rightarrow> False) \<and>
      (case map_of task ''interval_hours'' of
         None \<Rightarrow> True
       | Some (JInt h) \<Rightarrow> - 999999999 \<le> h div 24 \<and> h div 24 \<le> 999999999
       | Some (JBool b) \<Rightarrow> True
       | Some v \<Rightarrow> False))"

section \<open>Pattern mining\<close>

text \<open>Float literals such as \<^verbatim>\<open>0.017\<close> stand for their decimal values.\<close>

fun str_of_nat :: "nat \<Rightarrow> string" where
  "str_of_nat n =
     (if n < 10 then [char_of (48 + n)]
      else str_of_nat (n div 10) @ [char_of (48 + n mod 10)])"

definition find_time_patterns :: "env \<Rightarrow> jval list \<Rightarrow> engine \<Rightarrow> jdict list \<times> engine" where
  "find_time_patterns ev behaviors s =
     (let (r, s') = random_draw ev s
      in if r < 2 / 10 then
           ([[(''type'', JStr ''time_pattern''),
              (''confidence'', JNum (75 / 100)),
              (''description'', JStr ''Morning information check routine''),
              (''data'', JDict
                 [(''day_period'', JStr ''morning''),
                  (''time_range'', JList [JInt 6, JInt 9]),
                  (''actions'', JList [JStr ''check_weather'', JStr ''check_calendar'',
                                       JStr ''check_news''])])]], s')
         else ([], s'))"

definition find_sequence_patterns :: "env \<Rightarrow> jval list \<Rightarrow> engine \<Rightarrow> jdict list \<times> engine" where
  "find_sequence_patterns ev behaviors s =
     (let (r, s') = random_draw ev s
      in if r < 2 / 10 then
           ([[(''type'', JStr ''sequence_pattern''),
              (''confidence'', JNum (8 / 10)),
              (''description'', JStr ''Project research sequence''),
              (''data'', JDict
                 [(''trigger'', JStr ''research_start''),
                  (''sequence'', JList [JStr ''web_search'', JStr ''document_creation'',
                                        JStr ''bookmark_saving''])])]], s')
         else ([], s'))"

definition store_pattern :: "env \<Rightarrow> jdict \<Rightarrow> engine \<Rightarrow> engine" where
  \<comment> \<open>the body of the loop over the found patterns, whose four keys are always present\<close>
  "store_pattern ev pattern s =
     (let pattern_id = ''pattern_'' @ str_of_nat (length (intent_patterns s) + 1);
          (identified, s1) = read_clock ev s
      in s1\<lparr>intent_patterns :=
            AList.update pattern_id
              (JDict [(''type'', get pattern ''type'' JNull),
                      (''confidence'', get pattern ''confidence'' JNull),
                      (''description'', get pattern ''description'' JNull),
                      (''identified'', JTime identified),
                      (''pattern_data'', get pattern ''data'' JNull)])
              (intent_patterns s1)\<rparr>)"

definition analyze_behavior_patterns :: "env \<Rightarrow> engine \<Rightarrow> engine" where
  "analyze_behavior_patterns ev s =
     (let (r, s1) = random_draw ev s
      in if r > 17 / 1000 then s1
         else
           (let recent_behavior = last_n 50 (behavior_history s1);
                (time_patterns, s2) = find_time_patterns ev recent_behavior s1;
                (sequence_patterns, s3) = find_sequence_patterns ev recent_behavior s2;
                s4 = fold (store_pattern ev) (time_patterns @ sequence_patterns) s3
            in if time_patterns \<noteq> [] \<or> sequence_patterns \<noteq> []
               then snd (save_intent_data ev s4) else s4))"

section \<open>The background loop\<close>

definition py_sleep :: "nat \<Rightarrow> engine \<Rightarrow> engine" where
  \<comment> \<open>\<^verbatim>\<open>time.sleep(n)\<close>\<close>
  "py_sleep n s = s\<lparr>sleeps := sleeps s @ [n]\<rparr>"

definition cycle_body :: "env \<Rightarrow> engine \<Rightarrow> (error + unit) \<times> engine" where
  \<comment> \<open>the \<^verbatim>\<open>try\<close> block of one pass of the loop\<close>
  "cycle_body ev s =
     (case process_task_queue ev s of
        (Inl e, s1) \<Rightarrow> (Inl e, s1)
      | (Inr u, s1) \<Rightarrow>
         (case check_recurring_tasks ev s1 of
            (Inl e, s2) \<Rightarrow> (Inl e, s2)
          | (Inr u, s2) \<Rightarrow>
             (let s3 = analyze_behavior_patterns ev s2;
                  (r, s4) = random_draw ev s3;
                  s5 = (if r < 1 / 10 then snd (save_intent_data ev s4) else s4)
              in (Inr (), py_sleep 10 s5))))"

definition cycle :: "env \<Rightarrow> engine \<Rightarrow> engine" where
  \<comment> \<open>one pass of the loop with its \<^verbatim>\<open>except Exception\<close> handler\<close>
  "cycle ev s =
     (case cycle_body ev s of
        (Inr u, s') \<Rightarrow> s'
      | (Inl e, s') \<Rightarrow> py_sleep 60 (log_error (LoopError e) s'))"

definition other_thread :: "env \<Rightarrow> nat \<Rightarrow> engine \<Rightarrow> engine" where
  \<comment> \<open>\<^verbatim>\<open>stop_background_processing\<close> called from another thread during cycle \<open>k\<close>: it
      clears the flag, which the loop reads only in its \<^verbatim>\<open>while\<close> test\<close>
  "other_thread ev k s = (if stop_called ev k then s\<lparr>active := False\<rparr> else s)"

text \<open>
  The loop is run on fuel: \<open>None\<close> says that it is still running when the fuel is
  used up, \<open>Some s\<close> that it has left its \<^verbatim>\<open>while\<close> in state \<open>s\<close>. \<open>k\<close> numbers the
  cycles. Every exception that a pass can raise (\<open>error\<close>) is a subclass of
  \<^verbatim>\<open>Exception\<close>, so the handler catches it.
\<close>

fun background_loop :: "env \<Rightarrow> nat \<Rightarrow> nat \<Rightarrow> engine \<Rightarrow> engine option" where
  "background_loop ev 0 k s = None"
| "background_loop ev (Suc fuel) k s =
     (if active s then background_loop ev fuel (Suc k) (other_thread ev k (cycle ev s))
      else Some s)"

section \<open>Regular expressions\<close>

text \<open>
  The part of Python's \<^verbatim>\<open>re\<close> that the classifier's patterns use, on ASCII text:
  literals, character classes, greedy repetition of a class, greedy option, ordered
  alternation, concatenation, capturing groups and \<^verbatim>\<open>\b\<close>. \<open>rmatch\<close> lists the ways a
  pattern can match at the head of the input in the order in which the backtracking
  matcher tries them, so the head of the list is the match that \<^verbatim>\<open>re\<close> reports.
  A matcher state is the character before the position, the input still to read, and
  the groups captured so far.
\<close>

datatype cclass = CChar char | CDigit | CSpace | CAlpha | CDot | CUnion cclass cclass

fun in_class :: "cclass \<Rightarrow> char \<Rightarrow> bool" where
  "in_class (CChar c) x = (x = c)"
| "in_class CDigit x = (48 \<le> (of_char x :: nat) \<and> (of_char x :: nat) \<le> 57)"
| "in_class CSpace x = ((of_char x :: nat) \<in> {9, 10, 11, 12, 13, 28, 29, 30, 31, 32})"
| "in_class CAlpha x = ((65 \<le> (of_char x :: nat) \<and> (of_char x :: nat) \<le> 90) \<or>
                        (97 \<le> (of_char x :: nat) \<and> (of_char x :: nat) \<le> 122))"
| "in_class CDot x = ((of_char x :: nat) \<noteq> 10)"
| "in_class (CUnion a b) x = (in_class a x \<or> in_class b x)"

definition is_word :: "char option \<Rightarrow> bool" where
  \<comment> \<open>\<^verbatim>\<open>\w\<close>; no character (either end of the text) is not a word character\<close>
  "is_word c = (case c of None \<Rightarrow> False
                | Some x \<Rightarrow> in_class CAlpha x \<or> in_class CDigit x \<or> x = CHR ''_'')"

datatype regex =
    Lit string
  | One cclass
  | Star cclass
  | Plus cclass
  | Opt regex
  | Alt regex regex
  | Seq regex regex
  | Group nat regex
  | WordB

type_synonym mstate = "char option \<times> string \<times> (nat \<times> string) list"

fun star :: "cclass \<Rightarrow> char option \<Rightarrow> string \<Rightarrow> (char option \<times> string) list" where
  "star c p [] = [(p, [])]"
| "star c p (x # xs) =
     (if in_class c x then star c (Some x) xs @ [(p, x # xs)] else [(p, x # xs)])"

fun rmatch :: "regex \<Rightarrow> mstate \<Rightarrow> mstate list" where
  "rmatch (Lit l) (p, inp, g) =
     (if take (length l) inp = l
      then [(if l = [] then p else Some (last l), drop (length l) inp, g)] else [])"
| "rmatch (One c) (p, inp, g) =
     (case inp of [] \<Rightarrow> [] | x # xs \<Rightarrow> if in_class c x then [(Some x, xs, g)] else [])"
| "rmatch (Star c) (p, inp, g) = map (\<lambda>(p', inp'). (p', inp', g)) (star c p inp)"
| "rmatch (Plus c) (p, inp, g) =
     (case inp of [] \<Rightarrow> []
      | x # xs \<Rightarrow> if in_class c x then map (\<lambda>(p', inp'). (p', inp', g)) (star c (Some x) xs)
                  else [])"
| "rmatch (Opt r) st = rmatch r st @ [st]"
| "rmatch (Alt a b) st = rmatch a st @ rmatch b st"
| "rmatch (Seq a b) st = concat (map (rmatch b) (rmatch a st))"
| "rmatch (Group n r) (p, inp, g) =
     map (\<lambda>(p', inp', g'). (p', inp', AList.update n (take (length inp - length inp') inp) g'))
         (rmatch r (p, inp, g))"
| "rmatch WordB (p, inp, g) =
     (if is_word p \<noteq> is_word (case inp of [] \<Rightarrow> None | x # xs \<Rightarrow> Some x)
      then [(p, inp, g)] else [])"

fun search_from :: "regex \<Rightarrow> char option \<Rightarrow> string \<Rightarrow> mstate option" where
  "search_from r p [] = (case rmatch r (p, [], []) of [] \<Rightarrow> None | st # sts \<Rightarrow> Some st)"
| "search_from r p (x # xs) =
     (case rmatch r (p, x # xs, []) of
        [] \<Rightarrow> search_from r (Some x) xs
      | st # sts \<Rightarrow> Some st)"

definition re_search :: "regex \<Rightarrow> string \<Rightarrow> mstate option" where
  \<comment> \<open>\<^verbatim>\<open>re.search(pattern, text)\<close>: the first match at the leftmost position that has one\<close>
  "re_search r text = search_from r None text"

definition group :: "nat \<Rightarrow> mstate \<Rightarrow> string" where
  \<comment> \<open>\<^verbatim>\<open>m.group(n)\<close> for a group that took part in the match\<close>
  "group n m = (case map_of (snd (snd m)) n of None \<Rightarrow> [] | Some t \<Rightarrow> t)"

fun seqs :: "regex list \<Rightarrow> regex" where
  "seqs [] = Lit []"
| "seqs [r] = r"
| "seqs (r # rs) = Seq r (seqs rs)"

fun alts :: "string list \<Rightarrow> regex" where
  "alts [] = Lit []"
| "alts [l] = Lit l"
| "alts (l # ls) = Alt (Lit l) (alts ls)"

definition lower :: "string \<Rightarrow> string" where
  \<comment> \<open>\<^verbatim>\<open>str.lower()\<close>\<close>
  "lower text =
     map (\<lambda>c. if 65 \<le> (of_char c :: nat) \<and> (of_char c :: nat) \<le> 90
              then char_of ((of_char c :: nat) + 32) else c) text"

section \<open>The intent classifier\<close>

definition re_reminder :: regex where
  \<comment> \<open>\<^verbatim>\<open>\b(remind|reminder|remember)\b\<close>\<close>
  "re_reminder = seqs [WordB, Group 1 (alts [''remind'', ''reminder'', ''remember'']), WordB]"

definition re_time :: regex where
  \<comment> \<open>\<^verbatim>\<open>at (\d+[:\d]*\s*[ap]\.?m\.?)\<close>\<close>
  "re_time =
     seqs [Lit ''at '',
           Group 1 (seqs [Plus CDigit, Star (CUnion (CChar CHR '':'') CDigit), Star CSpace,
                          One (CUnion (CChar CHR ''a'') (CChar CHR ''p'')),
                          Opt (Lit ''.''), Lit ''m'', Opt (Lit ''.'')])]"

definition re_calendar :: regex where
  \<comment> \<open>\<^verbatim>\<open>\b(schedule|appointment|meeting|calendar)\b\<close>\<close>
  "re_calendar =
     seqs [WordB, Group 1 (alts [''schedule'', ''appointment'', ''meeting'', ''calendar'']), WordB]"

definition re_date :: regex where
  \<comment> \<open>\<^verbatim>\<open>on ([a-zA-Z]+ \d+)\<close>\<close>
  "re_date = seqs [Lit ''on '', Group 1 (seqs [Plus CAlpha, Lit '' '', Plus CDigit])]"

definition re_search_kw :: regex where
  \<comment> \<open>\<^verbatim>\<open>\b(search|find|look up)\b\<close>\<close>
  "re_search_kw = seqs [WordB, Group 1 (alts [''search'', ''find'', ''look up'']), WordB]"

definition re_query :: regex where
  \<comment> \<open>\<^verbatim>\<open>(search|find|look up)\s+(?:for\s+)?(.+)\<close>\<close>
  "re_query =
     seqs [Group 1 (alts [''search'', ''find'', ''look up'']), Plus CSpace,
           Opt (seqs [Lit ''for'', Plus CSpace]), Group 2 (Plus CDot)]"

definition re_communication :: regex where
  \<comment> \<open>\<^verbatim>\<open>\b(send|message|text|call)\b\<close>\<close>
  "re_communication = seqs [WordB, Group 1 (alts [''send'', ''message'', ''text'', ''call'']), WordB]"

definition re_recipient :: regex where
  \<comment> \<open>\<^verbatim>\<open>to\s+([a-zA-Z]+)\<close>\<close>
  "re_recipient = seqs [Lit ''to'', Plus CSpace, Group 1 (Plus CAlpha)]"

definition re_help :: regex where
  \<comment> \<open>\<^verbatim>\<open>\b(help|explain|how do|how to)\b\<close>\<close>
  "re_help = seqs [WordB, Group 1 (alts [''help'', ''explain'', ''how do'', ''how to'']), WordB]"

record intent =
  primary :: string
  confidence :: rat
  entities :: "(string \<times> string) list"
  intent_context :: jdict

definition extract_entity :: "regex \<Rightarrow> nat \<Rightarrow> string \<Rightarrow> string \<Rightarrow> intent \<Rightarrow> intent" where
  \<comment> \<open>\<^verbatim>\<open>m = re.search(...); if m: intent["entities"][key] = m.group(n)\<close>\<close>
  "extract_entity r n key text i =
     (case re_search r text of
        None \<Rightarrow> i
      | Some m \<Rightarrow> i\<lparr>entities := AList.update key (group n m) (entities i)\<rparr>)"

fun num_of :: "jval \<Rightarrow> rat option" where
  \<comment> \<open>the values that Python orders against an int\<close>
  "num_of (JInt i) = Some (of_int i)"
| "num_of (JBool b) = Some (if b then 1 else 0)"
| "num_of (JNum x) = Some x"
| "num_of v = None"

definition refine_intent_with_context :: "intent \<Rightarrow> jdict \<Rightarrow> error + intent" where
  "refine_intent_with_context i ctx =
     (let i1 = (if get ctx ''app'' JNull = JStr ''messaging'' \<and> primary i = ''communication''
                then i\<lparr>confidence := min 1 (confidence i + 1 / 10)\<rparr> else i);
          i2 = (if get ctx ''app'' JNull = JStr ''calendar'' \<and> primary i1 = ''reminder''
                then i1\<lparr>primary := ''calendar'', confidence := min 1 (confidence i1 + 5 / 100)\<rparr>
                else i1);
          i3 = (if has_key ''location'' ctx \<and> get ctx ''location'' JNull = JStr ''home''
                   \<and> primary i2 = ''reminder''
                then i2\<lparr>entities := AList.update ''location'' ''home'' (entities i2)\<rparr> else i2)
      in if has_key ''time'' ctx then
           (case get ctx ''time'' JNull of
              JDict d \<Rightarrow>
                (case num_of (get d ''hour'' (JInt 0)) of
                   None \<Rightarrow> Inl TypeError
                 | Some current_hour \<Rightarrow>
                     if 5 \<le> current_hour \<and> current_hour \<le> 9 \<and> primary i3 = ''unknown''
                     then Inr (i3\<lparr>primary := ''morning_routine'', confidence := 6 / 10\<rparr>)
                     else Inr i3)
            | v \<Rightarrow> Inl AttributeError)
         else Inr i3)"

definition recognize_intent ::
  "string \<Rightarrow> jdict option \<Rightarrow> engine \<Rightarrow> (error + intent) \<times> engine" where
  "recognize_intent text ctx s =
     (let t = lower text;
          i0 = \<lparr>primary = ''unknown'', confidence = 5 / 10, entities = [],
                intent_context = (case ctx of None \<Rightarrow> [] | Some c \<Rightarrow> c)\<rparr>;
          i1 = (if re_search re_reminder t \<noteq> None then
                  extract_entity re_time 1 ''time'' t
                    (i0\<lparr>primary := ''reminder'', confidence := 8 / 10\<rparr>)
                else if re_search re_calendar t \<noteq> None then
                  extract_entity re_date 1 ''date'' t
                    (i0\<lparr>primary := ''calendar'', confidence := 75 / 100\<rparr>)
                else if re_search re_search_kw t \<noteq> None then
                  extract_entity re_query 2 ''query'' t
                    (i0\<lparr>primary := ''search'', confidence := 7 / 10\<rparr>)
                else if re_search re_communication t \<noteq> None then
                  extract_entity re_recipient 1 ''recipient'' t
                    (i0\<lparr>primary := ''communication'', confidence := 8 / 10\<rparr>)
                else if re_search re_help t \<noteq> None then
                  i0\<lparr>primary := ''help'', confidence := 9 / 10\<rparr>
                else i0)
      in case ctx of
           None \<Rightarrow> (Inr i1, s)
         | Some c \<Rightarrow> if c = [] then (Inr i1, s) else (refine_intent_with_context i1 c, s))"

section \<open>Example data\<close>

text \<open>A clock that starts at 1000 and advances by one at each reading, and an empty engine.\<close>

definition ev0 :: env where
  "ev0 = \<lparr>clk = (\<lambda>k. 1000 + int k), rnd = (\<lambda>k. 1 / 2), disk_ok = (\<lambda>k. True),
          float_hours = (\<lambda>x. Inl TypeError), stop_called = (\<lambda>k. False)\<rparr>"

definition s0 :: engine where
  "s0 = \<lparr>intent_patterns = [], behavior_history = [], task_queue = [], recurring_tasks = [],
         active = True, ticks = 0, draws = 0, saves = 0, sleeps = [], error_log = [],
         task_log = []\<rparr>"

definition t_now :: jdict where
  "t_now = [(''type'', JStr ''reminder''), (''content'', JStr ''tea'')]"

definition t_later :: jdict where
  "t_later = [(''type'', JStr ''message''), (''scheduled_time'', JTime 5000)]"

definition t_keep :: jdict where
  "t_keep = [(''type'', JStr ''odd''), (''scheduled_time'', JTime 900),
             (''remove_on_failure'', JBool False)]"

definition t_both :: jdict where
  "t_both = [(''type'', JStr ''system_task''), (''interval_hours'', JInt 24),
             (''day_of_week'', JInt 0)]"

definition t_daily :: jdict where
  "t_daily = [(''type'', JStr ''data_collection''), (''interval_hours'', JInt 24)]"

definition ev_day :: env where
  \<comment> \<open>a clock that advances by a whole day at each reading\<close>
  "ev_day = \<lparr>clk = (\<lambda>k. int k * us_per_day), rnd = (\<lambda>k. 1 / 2), disk_ok = (\<lambda>k. True),
             float_hours = (\<lambda>x. Inl TypeError), stop_called = (\<lambda>k. False)\<rparr>"

definition t_off :: jdict where
  "t_off = [(''type'', JStr ''message''), (''interval_hours'', JInt 1), (''active'', JBool False)]"

definition ev_stop :: env where
  \<comment> \<open>as \<open>ev0\<close>, with \<^verbatim>\<open>stop_background_processing\<close> called during the second cycle\<close>
  "ev_stop = \<lparr>clk = (\<lambda>k. 1000 + int k), rnd = (\<lambda>k. 1 / 2), disk_ok = (\<lambda>k. True),
              float_hours = (\<lambda>x. Inl TypeError), stop_called = (\<lambda>k. k = 1)\<rparr>"

definition t_bad :: jdict where
  "t_bad = [(''type'', JStr ''reminder''), (''scheduled_time'', JStr ''tomorrow'')]"

definition t_tz :: jdict where
  \<comment> \<open>a timestamp with a UTC offset\<close>
  "t_tz = [(''type'', JStr ''reminder''), (''scheduled_time'', JTimeTz 900 0)]"

definition t_odd :: jdict where
  "t_odd = [(''type'', JStr ''odd'')]"

definition t_badrec :: jdict where
  "t_badrec = [(''type'', JStr ''message''), (''interval_hours'', JStr ''daily'')]"

definition failing_on_odd :: "env \<Rightarrow> jdict \<Rightarrow> engine \<Rightarrow> bool \<times> engine" where
  \<comment> \<open>a method that does what \<^verbatim>\<open>_execute_task\<close> does and reports failure on the tasks
      of type \<^verbatim>\<open>odd\<close>\<close>
  "failing_on_odd ev task s =
     (get task ''type'' JNull \<noteq> JStr ''odd'', snd (execute_task ev task s))"

section \<open>Properties of the due-task sweep\<close>

lemma record_behavior_last:
  "behavior_history (record_behavior b s) = last_n 200 (behavior_history s @ [b])"
  by (simp add: record_behavior_def Let_def last_n_def)

lemma last_last_n: "xs \<noteq> [] \<Longrightarrow> 0 < n \<Longrightarrow> last (last_n n xs) = last xs"
  by (simp add: last_n_def)

lemma run_handler_fields:
  "behavior_history (run_handler ty task s) = behavior_history s"
  "task_queue (run_handler ty task s) = task_queue s"
  "recurring_tasks (run_handler ty task s) = recurring_tasks s"
  "active (run_handler ty task s) = active s"
  "sleeps (run_handler ty task s) = sleeps s"
  "error_log (run_handler ty task s) = error_log s"
  "ticks (run_handler ty task s) = ticks s"
  by (simp_all add: run_handler_def log_info_def)

lemma execute_task_fields:
  "fst (execute_task ev task s)"
  "behavior_history (snd (execute_task ev task s)) =
     last_n 200 (behavior_history s @
       [JDict [(''type'', JStr ''task_execution''), (''task'', JDict task),
               (''timestamp'', JTime (clk ev (ticks s)))]])"
  "task_queue (snd (execute_task ev task s)) = task_queue s"
  "recurring_tasks (snd (execute_task ev task s)) = recurring_tasks s"
  "active (snd (execute_task ev task s)) = active s"
  "sleeps (snd (execute_task ev task s)) = sleeps s"
  "error_log (snd (execute_task ev task s)) = error_log s"
  "ticks (snd (execute_task ev task s)) = Suc (ticks s)"
  by (simp_all add: execute_task_def execute_body_def read_clock_def Let_def log_info_def
        run_handler_fields record_behavior_last)
     (simp_all add: record_behavior_def Let_def)

lemma execute_task_log:
  "task_log (snd (execute_task ev task s)) =
     task_log s @ [Executing (get task ''type'' (JStr ''unknown''))] @
     task_log (run_handler (get task ''type'' (JStr ''unknown'')) task
                 (s\<lparr>task_log := []\<rparr>)) @
     [ExecutedSuccessfully (get task ''type'' (JStr ''unknown''))]"
  by (simp add: execute_task_def execute_body_def read_clock_def Let_def log_info_def
        run_handler_def record_behavior_def)

lemma ptq_loop_wf:
  assumes ok: "\<And>task s. fst (ex task s) = ok task"
  shows "\<forall>p \<in> set its. sched_ok (snd p) \<Longrightarrow>
   ptq_loop ex now its rem s =
     (Inr (rem @ map fst (filter (\<lambda>p. is_due now (snd p) \<and>
              (ok (snd p) \<or> truthy (get (snd p) ''remove_on_failure'' (JBool True)))) its)),
      execute_all ex (map snd (filter (\<lambda>p. is_due now (snd p)) its)) s)"
proof (induction its arbitrary: rem s)
  case Nil
  then show ?case by (simp add: execute_all_def)
next
  case (Cons p its)
  obtain i task where p: "p = (i, task)" by (cases p)
  from Cons.prems have wf: "sched_ok task" and rest: "\<forall>p \<in> set its. sched_ok (snd p)"
    by (simp_all add: p)
  note IH = Cons.IH [OF rest]
  show ?case
  proof (cases "map_of task ''scheduled_time''")
    case None
    then show ?thesis
      by (simp add: p has_key_def is_due_def IH ok execute_all_def split_beta)
  next
    case (Some v)
    with wf obtain t where v: "v = JTime t"
      by (auto simp: sched_ok_def split: jval.splits)
    show ?thesis
      by (cases "t \<le> now")
         (simp_all add: p Some v has_key_def get_def is_due_def IH ok execute_all_def
            split_beta)
  qed
qed

lemma del_all_append:
  "del_all js xs = Inr zs \<Longrightarrow> del_all js (xs @ ys) = Inr (zs @ ys)"
proof (induction js arbitrary: xs)
  case Nil
  then show ?case by simp
next
  case (Cons j js)
  from Cons.prems have j: "j < length xs"
    and rest: "del_all js (take j xs @ drop (Suc j) xs) = Inr zs"
    by (auto simp: del_at_def split: if_splits)
  from Cons.IH [OF rest] j show ?case
    by (simp add: del_at_def)
qed

lemma marked_snoc:
  "marked P (xs @ [x]) = marked P xs @ (if P x then [length xs] else [])"
  by (simp add: marked_def enumerate_append_eq)

lemma del_all_marked:
  "del_all (rev (marked P xs)) xs = Inr (filter (\<lambda>x. \<not> P x) xs)"
proof (induction xs rule: rev_induct)
  case Nil
  then show ?case by (simp add: marked_def)
next
  case (snoc x xs)
  show ?case
  proof (cases "P x")
    case True
    then show ?thesis
      using snoc by (simp add: marked_snoc del_at_def)
  next
    case False
    then show ?thesis
      using del_all_append [OF snoc, of "[x]"] by (simp add: marked_snoc)
  qed
qed

lemma marked_less: "i \<in> set (marked P xs) \<Longrightarrow> i < length xs"
  by (auto simp: marked_def in_set_enumerate_eq)

lemma sorted_marked: "sorted (marked P xs)"
proof (induction xs rule: rev_induct)
  case Nil
  then show ?case by (simp add: marked_def)
next
  case (snoc x xs)
  then show ?case
    by (auto simp: marked_snoc sorted_append dest: marked_less less_imp_le)
qed

lemma execute_all_queue:
  assumes "\<And>task s. task_queue (snd (ex task s)) = task_queue s"
  shows "task_queue (execute_all ex ts s) = task_queue s"
  by (induction ts arbitrary: s) (simp_all add: execute_all_def assms)

lemma process_task_queue_with_wf:
  assumes wf: "\<forall>t \<in> set (task_queue s). sched_ok t"
      and frame: "\<And>task s. task_queue (snd (ex task s)) = task_queue s"
      and ok: "\<And>task s. fst (ex task s) = ok task"
  shows "process_task_queue_with ex ev s =
          (Inr (), (execute_all ex (filter (is_due (clk ev (ticks s))) (task_queue s))
                     (s\<lparr>ticks := Suc (ticks s)\<rparr>))
                   \<lparr>task_queue :=
                      filter (\<lambda>t. \<not> (is_due (clk ev (ticks s)) t \<and>
                                 (ok t \<or> truthy (get t ''remove_on_failure'' (JBool True)))))
                        (task_queue s)\<rparr>)"
proof -
  let ?now = "clk ev (ticks s)"
  let ?s1 = "s\<lparr>ticks := Suc (ticks s)\<rparr>"
  let ?q = "task_queue s"
  let ?R = "\<lambda>t. is_due ?now t \<and> (ok t \<or> truthy (get t ''remove_on_failure'' (JBool True)))"
  have wf': "\<forall>p \<in> set (enumerate 0 ?q). sched_ok (snd p)"
    using wf by (auto simp: in_set_enumerate_eq)
  have m: "map snd (filter (\<lambda>p. is_due ?now (snd p)) (enumerate 0 ?q)) = filter (is_due ?now) ?q"
    by (metis (no_types, lifting) filter_map map_snd_enumerate o_def filter_cong)
  have loop: "ptq_loop ex ?now (enumerate 0 ?q) [] ?s1 =
                (Inr (marked ?R ?q), execute_all ex (filter (is_due ?now) ?q) ?s1)"
    using ptq_loop_wf [of ex ok, OF ok wf', of ?now "[]" ?s1] by (simp add: marked_def m)
  show ?thesis
    by (simp add: process_task_queue_with_def read_clock_def loop
          sorted_sort_id [OF sorted_marked] execute_all_queue [of ex, OF frame] del_all_marked)
qed

text \<open>
  Claim C1, as stated, holds of every task of the queue. \<^verbatim>\<open>add_task\<close> accepts a task
  whose \<^verbatim>\<open>scheduled_time\<close> is no timestamp; the sweep then raises at that task, before
  its removal loop. Here a task without \<^verbatim>\<open>scheduled_time\<close> is added before such a task:
  each of two sweeps executes it, with success, and leaves it in the queue.
\<close>

theorem due_task_kept_by_raising_sweep:
  "(let s1 = snd (add_task ev0 t_now s0);
        s2 = snd (add_task ev0 t_bad s1);
        r1 = process_task_queue ev0 s2;
        r2 = process_task_queue ev0 (snd r1)
    in fst (add_task ev0 t_now s0) \<and> fst (add_task ev0 t_bad s1) \<and>
       task_queue s2 = [t_now @ [(''created'', JTime 1000)],
                        t_bad @ [(''created'', JTime 1002)]] \<and>
       fst r1 = Inl ValueError \<and> task_queue (snd r1) = task_queue s2 \<and>
       fst r2 = Inl ValueError \<and> task_queue (snd r2) = task_queue s2 \<and>
       behavior_history (snd r2) =
         [JDict [(''type'', JStr ''task_execution''),
                 (''task'', JDict (t_now @ [(''created'', JTime 1000)])),
                 (''timestamp'', JTime 1005)],
          JDict [(''type'', JStr ''task_execution''),
                 (''task'', JDict (t_now @ [(''created'', JTime 1000)])),
                 (''timestamp'', JTime 1007)]])"
  by (simp add: add_task_def save_intent_data_def process_task_queue_def
        process_task_queue_with_def read_clock_def execute_task_fields s0_def ev0_def
        t_now_def t_bad_def has_key_def get_def Let_def split_beta last_n_def)

text \<open>
  Claim C1, amended. The queue holds tasks whose \<^verbatim>\<open>scheduled_time\<close> is absent or a
  naive timestamp. Then a sweep that reads the clock at \<open>now\<close> returns normally and
  runs the method \<^verbatim>\<open>_execute_task\<close> once on each due task, in queue order, and on no
  other task. A task without \<^verbatim>\<open>scheduled_time\<close> is due in every sweep; a task with
  \<^verbatim>\<open>scheduled_time = t\<close> is due exactly in the sweeps with \<open>t \<le> now\<close>. For any method
  that leaves the queue alone and whose answer on a task is \<open>ok task\<close>, the queue
  afterwards is the old queue without the due tasks for which \<open>ok task\<close> holds or
  \<^verbatim>\<open>task.get("remove_on_failure", True)\<close> is true; all other tasks stay, in their
  order. With the method of the class, which always succeeds, the removed tasks are the
  due ones.
\<close>

theorem due_task_sweep:
  assumes "\<forall>t \<in> set (task_queue s). sched_ok t"
      and "\<forall>task s. task_queue (snd (ex task s)) = task_queue s"
      and "\<forall>task s. fst (ex task s) = ok task"
  shows "process_task_queue_with ex ev s =
           (Inr (), (execute_all ex (filter (is_due (clk ev (ticks s))) (task_queue s))
                      (s\<lparr>ticks := Suc (ticks s)\<rparr>))
                    \<lparr>task_queue :=
                       filter (\<lambda>t. \<not> (is_due (clk ev (ticks s)) t \<and>
                                  (ok t \<or> truthy (get t ''remove_on_failure'' (JBool True)))))
                         (task_queue s)\<rparr>)
         \<and> process_task_queue ev s =
           (Inr (), (execute_all (execute_task ev)
                       (filter (is_due (clk ev (ticks s))) (task_queue s))
                       (s\<lparr>ticks := Suc (ticks s)\<rparr>))
                    \<lparr>task_queue := filter (\<lambda>t. \<not> is_due (clk ev (ticks s)) t) (task_queue s)\<rparr>)
         \<and> (\<forall>task \<in> set (task_queue s).
               (\<not> has_key ''scheduled_time'' task \<longrightarrow> is_due (clk ev (ticks s)) task) \<and>
               (\<forall>t. map_of task ''scheduled_time'' = Some (JTime t) \<longrightarrow>
                    (is_due (clk ev (ticks s)) task \<longleftrightarrow> t \<le> clk ev (ticks s))))"
proof -
  have a: "process_task_queue_with ex ev s =
           (Inr (), (execute_all ex (filter (is_due (clk ev (ticks s))) (task_queue s))
                      (s\<lparr>ticks := Suc (ticks s)\<rparr>))
                    \<lparr>task_queue :=
                       filter (\<lambda>t. \<not> (is_due (clk ev (ticks s)) t \<and>
                                  (ok t \<or> truthy (get t ''remove_on_failure'' (JBool True)))))
                         (task_queue s)\<rparr>)"
    using assms by (intro process_task_queue_with_wf) simp_all
  have b: "process_task_queue ev s =
           (Inr (), (execute_all (execute_task ev)
                       (filter (is_due (clk ev (ticks s))) (task_queue s))
                       (s\<lparr>ticks := Suc (ticks s)\<rparr>))
                    \<lparr>task_queue := filter (\<lambda>t. \<not> is_due (clk ev (ticks s)) t) (task_queue s)\<rparr>)"
    using process_task_queue_with_wf [of s "execute_task ev" "\<lambda>t. True" ev] assms(1)
    by (simp add: process_task_queue_def execute_task_fields)
  have c: "\<forall>task \<in> set (task_queue s).
               (\<not> has_key ''scheduled_time'' task \<longrightarrow> is_due (clk ev (ticks s)) task) \<and>
               (\<forall>t. map_of task ''scheduled_time'' = Some (JTime t) \<longrightarrow>
                    (is_due (clk ev (ticks s)) task \<longleftrightarrow> t \<le> clk ev (ticks s)))"
    by (auto simp: is_due_def has_key_def)
  from a b c show ?thesis by blast
qed

theorem due_task_sweep_witness:
  "fst (process_task_queue_with (failing_on_odd ev0) ev0
          (s0\<lparr>task_queue := [t_now, t_later, t_keep, t_odd]\<rparr>)) = Inr ()
   \<and> task_queue (snd (process_task_queue_with (failing_on_odd ev0) ev0
          (s0\<lparr>task_queue := [t_now, t_later, t_keep, t_odd]\<rparr>))) = [t_later, t_keep]
   \<and> behavior_history (snd (process_task_queue_with (failing_on_odd ev0) ev0
          (s0\<lparr>task_queue := [t_now, t_later, t_keep, t_odd]\<rparr>))) =
       [JDict [(''type'', JStr ''task_execution''), (''task'', JDict t_now),
               (''timestamp'', JTime 1001)],
        JDict [(''type'', JStr ''task_execution''), (''task'', JDict t_keep),
               (''timestamp'', JTime 1002)],
        JDict [(''type'', JStr ''task_execution''), (''task'', JDict t_odd),
               (''timestamp'', JTime 1003)]]
   \<and> task_queue (snd (process_task_queue ev0
          (s0\<lparr>task_queue := [t_now, t_later, t_keep, t_odd]\<rparr>))) = [t_later]"
  using due_task_sweep [of "s0\<lparr>task_queue := [t_now, t_later, t_keep, t_odd]\<rparr>"
                           "failing_on_odd ev0" "\<lambda>t. get t ''type'' JNull \<noteq> JStr ''odd''" ev0]
  by (simp add: s0_def ev0_def t_now_def t_later_def t_keep_def t_odd_def sched_ok_def
        is_due_def failing_on_odd_def execute_all_def execute_task_fields get_def last_n_def)

text \<open>
  Claim C10, as stated, has every due task removed after its first execution attempt.
  A sweep that raises removes nothing: here the second task carries a timestamp with a
  UTC offset, the comparison with \<^verbatim>\<open>now\<close> raises, and the first task, due and executed
  with success, stays in the queue.
\<close>

theorem executed_task_not_removed:
  "fst (process_task_queue ev0 (s0\<lparr>task_queue := [t_keep, t_tz]\<rparr>)) = Inl TypeError
   \<and> task_queue (snd (process_task_queue ev0 (s0\<lparr>task_queue := [t_keep, t_tz]\<rparr>))) =
       [t_keep, t_tz]
   \<and> behavior_history (snd (process_task_queue ev0 (s0\<lparr>task_queue := [t_keep, t_tz]\<rparr>))) =
       [JDict [(''type'', JStr ''task_execution''), (''task'', JDict t_keep),
               (''timestamp'', JTime 1001)]]"
  by (simp add: process_task_queue_def process_task_queue_with_def read_clock_def
        execute_task_fields s0_def ev0_def t_keep_def t_tz_def has_key_def get_def
        split_beta last_n_def)

text \<open>
  Claim C10, amended. \<^verbatim>\<open>_execute_task\<close> answers \<^verbatim>\<open>True\<close> for every task, whatever its
  type, and never takes its \<^verbatim>\<open>except\<close> branch (nothing is logged as an error). The
  attempt appends the record \<^verbatim>\<open>{type: task_execution, task: task, timestamp: now}\<close> to
  the history, trimmed to its last 200 records, so that this record is the last one
  afterwards; a task whose type has no handler only gets the opening and the closing
  message. So in a sweep over a queue whose \<^verbatim>\<open>scheduled_time\<close> values are absent or
  naive timestamps, which is a sweep that does not raise, every due task is removed,
  also one whose \<^verbatim>\<open>remove_on_failure\<close> is false.
\<close>

theorem execute_task_always_succeeds:
  "fst (execute_task ev task s)
   \<and> behavior_history (snd (execute_task ev task s)) =
       last_n 200 (behavior_history s @
         [JDict [(''type'', JStr ''task_execution''), (''task'', JDict task),
                 (''timestamp'', JTime (clk ev (ticks s)))]])
   \<and> last (behavior_history (snd (execute_task ev task s))) =
       JDict [(''type'', JStr ''task_execution''), (''task'', JDict task),
              (''timestamp'', JTime (clk ev (ticks s)))]
   \<and> error_log (snd (execute_task ev task s)) = error_log s
   \<and> (get task ''type'' (JStr ''unknown'') \<notin>
         {JStr ''reminder'', JStr ''data_collection'', JStr ''message'', JStr ''system_task'',
          JStr ''content_preparation''} \<longrightarrow>
       task_log (snd (execute_task ev task s)) =
         task_log s @ [Executing (get task ''type'' (JStr ''unknown'')),
                       ExecutedSuccessfully (get task ''type'' (JStr ''unknown''))])
   \<and> ((\<forall>t \<in> set (task_queue s). sched_ok t) \<longrightarrow>
        fst (process_task_queue ev s) = Inr () \<and>
        task_queue (snd (process_task_queue ev s)) =
          filter (\<lambda>t. \<not> is_due (clk ev (ticks s)) t) (task_queue s))"
proof -
  have sweep: "fst (process_task_queue ev s) = Inr () \<and>
        task_queue (snd (process_task_queue ev s)) =
          filter (\<lambda>t. \<not> is_due (clk ev (ticks s)) t) (task_queue s)"
    if "\<forall>t \<in> set (task_queue s). sched_ok t"
    using process_task_queue_with_wf [of s "execute_task ev" "\<lambda>t. True" ev] that
    by (simp add: process_task_queue_def execute_task_fields)
  have unknown: "task_log (snd (execute_task ev task s)) =
         task_log s @ [Executing (get task ''type'' (JStr ''unknown'')),
                       ExecutedSuccessfully (get task ''type'' (JStr ''unknown''))]"
    if "get task ''type'' (JStr ''unknown'') \<notin>
         {JStr ''reminder'', JStr ''data_collection'', JStr ''message'', JStr ''system_task'',
          JStr ''content_preparation''}"
    using that by (simp add: execute_task_log run_handler_def)
  from sweep unknown show ?thesis
    by (simp add: execute_task_fields last_last_n)
qed

theorem execute_task_always_succeeds_witness:
  "fst (execute_task ev0 t_keep s0)
   \<and> behavior_history (snd (execute_task ev0 t_keep s0)) =
       [JDict [(''type'', JStr ''task_execution''), (''task'', JDict t_keep),
               (''timestamp'', JTime 1000)]]
   \<and> task_log (snd (execute_task ev0 t_keep s0)) =
       [Executing (JStr ''odd''), ExecutedSuccessfully (JStr ''odd'')]
   \<and> task_log (snd (execute_task ev0 t_now s0)) =
       [Executing (JStr ''reminder''), Reminder (JStr ''tea''),
        ExecutedSuccessfully (JStr ''reminder'')]
   \<and> task_queue (snd (process_task_queue ev0 (s0\<lparr>task_queue := [t_keep, t_later]\<rparr>))) = [t_later]"
  using execute_task_always_succeeds [of ev0 t_keep s0]
    execute_task_always_succeeds [of ev0 t_keep "s0\<lparr>task_queue := [t_keep, t_later]\<rparr>"]
  by (simp add: s0_def ev0_def t_later_def t_keep_def t_now_def sched_ok_def is_due_def
        get_def last_n_def execute_task_log run_handler_def log_info_def)

section \<open>Properties of the task store\<close>

lemma save_frame:
  "task_queue (snd (save_intent_data ev s)) = task_queue s"
  "recurring_tasks (snd (save_intent_data ev s)) = recurring_tasks s"
  "intent_patterns (snd (save_intent_data ev s)) = intent_patterns s"
  "active (snd (save_intent_data ev s)) = active s"
  "sleeps (snd (save_intent_data ev s)) = sleeps s"
  "saves (snd (save_intent_data ev s)) = Suc (saves s)"
  "draws (snd (save_intent_data ev s)) = draws s"
  by (simp_all add: save_intent_data_def read_clock_def log_error_def Let_def)

text \<open>
  Claim C5. \<^verbatim>\<open>add_task\<close> on a task without \<^verbatim>\<open>type\<close> answers \<^verbatim>\<open>False\<close>, logs the
  error and changes nothing else: the queue is as before and nothing is saved. On a task
  with \<^verbatim>\<open>type\<close> it answers \<^verbatim>\<open>True\<close>, appends the task stamped with
  \<^verbatim>\<open>created\<close> to the queue and calls \<^verbatim>\<open>save_intent_data\<close> once.
\<close>

theorem add_task_validates_type:
  "(\<not> has_key ''type'' task_data \<longrightarrow>
      add_task ev task_data s = (False, log_error MissingTaskType s) \<and>
      task_queue (snd (add_task ev task_data s)) = task_queue s \<and>
      saves (snd (add_task ev task_data s)) = saves s)
   \<and> (has_key ''type'' task_data \<longrightarrow>
      fst (add_task ev task_data s) \<and>
      task_queue (snd (add_task ev task_data s)) =
        task_queue s @ [AList.update ''created'' (JTime (clk ev (ticks s))) task_data] \<and>
      saves (snd (add_task ev task_data s)) = Suc (saves s))"
  by (simp add: add_task_def read_clock_def log_error_def save_frame split_beta Let_def)

theorem add_task_validates_type_witness:
  "add_task ev0 [] s0 = (False, s0\<lparr>error_log := [MissingTaskType]\<rparr>) \<and>
   fst (add_task ev0 t_now s0) \<and>
   task_queue (snd (add_task ev0 t_now s0)) = [t_now @ [(''created'', JTime 1000)]] \<and>
   saves (snd (add_task ev0 t_now s0)) = 1"
  using add_task_validates_type [of "[]" ev0 s0] add_task_validates_type [of t_now ev0 s0]
  by (simp add: has_key_def t_now_def s0_def ev0_def log_error_def)

text \<open>
  Claim C4, as stated, asks for exactly one recurrence key. The source tests
  \<^verbatim>\<open>any(key in task_data for key in [...])\<close>: a task with both
  \<^verbatim>\<open>interval_hours\<close> and \<^verbatim>\<open>day_of_week\<close> is accepted and appended.
\<close>

theorem add_recurring_task_two_discriminators:
  "fst (add_recurring_task ev0 t_both s0) \<and>
   recurring_tasks (snd (add_recurring_task ev0 t_both s0)) =
     [t_both @ [(''created'', JTime 1000), (''active'', JBool True)]]"
  by (simp add: add_recurring_task_def t_both_def s0_def ev0_def has_key_def read_clock_def
        save_frame split_beta Let_def)

text \<open>
  Claim C4, amended. \<^verbatim>\<open>add_recurring_task\<close> answers \<^verbatim>\<open>False\<close> and leaves the table
  as it is (nothing is saved) when the task lacks \<^verbatim>\<open>type\<close> or has none of the keys
  \<^verbatim>\<open>interval_hours\<close>, \<^verbatim>\<open>day_of_week\<close>, \<^verbatim>\<open>trigger_pattern\<close>. With a
  \<^verbatim>\<open>type\<close> and at least one of these keys, whatever their values, it stamps
  \<^verbatim>\<open>created\<close>, sets \<^verbatim>\<open>active\<close> to true, appends the task to the table, saves once
  and answers \<^verbatim>\<open>True\<close>.
\<close>

theorem add_recurring_task_validates:
  "(\<not> has_key ''type'' task_data \<or>
    \<not> (has_key ''interval_hours'' task_data \<or> has_key ''day_of_week'' task_data \<or>
       has_key ''trigger_pattern'' task_data) \<longrightarrow>
      \<not> fst (add_recurring_task ev task_data s) \<and>
      recurring_tasks (snd (add_recurring_task ev task_data s)) = recurring_tasks s \<and>
      saves (snd (add_recurring_task ev task_data s)) = saves s)
   \<and> (has_key ''type'' task_data \<and>
      (has_key ''interval_hours'' task_data \<or> has_key ''day_of_week'' task_data \<or>
       has_key ''trigger_pattern'' task_data) \<longrightarrow>
      fst (add_recurring_task ev task_data s) \<and>
      recurring_tasks (snd (add_recurring_task ev task_data s)) =
        recurring_tasks s @
          [AList.update ''active'' (JBool True)
             (AList.update ''created'' (JTime (clk ev (ticks s))) task_data)] \<and>
      saves (snd (add_recurring_task ev task_data s)) = Suc (saves s))"
  by (auto simp: add_recurring_task_def read_clock_def log_error_def save_frame split_beta Let_def)

theorem add_recurring_task_validates_witness:
  "\<not> fst (add_recurring_task ev0 t_now s0) \<and>
   recurring_tasks (snd (add_recurring_task ev0 t_now s0)) = [] \<and>
   fst (add_recurring_task ev0 t_daily s0) \<and>
   recurring_tasks (snd (add_recurring_task ev0 t_daily s0)) =
     [t_daily @ [(''created'', JTime 1000), (''active'', JBool True)]]"
  using add_recurring_task_validates [of t_now ev0 s0]
    add_recurring_task_validates [of t_daily ev0 s0]
  by (simp add: has_key_def t_now_def t_daily_def s0_def ev0_def)

text \<open>
  Claim C6, as stated, has the second \<^verbatim>\<open>remove_task(1)\<close> on a queue of three fail.
  After the first removal the queue has two entries, index 1 is in range, and the second
  call succeeds: it removes the task that was at index 2.
\<close>

theorem remove_task_twice_succeeds:
  "fst (remove_task ev0 1 (snd (remove_task ev0 1 (s0\<lparr>task_queue := [t_now, t_later, t_keep]\<rparr>))))
   \<and> task_queue (snd (remove_task ev0 1
        (snd (remove_task ev0 1 (s0\<lparr>task_queue := [t_now, t_later, t_keep]\<rparr>))))) = [t_now]"
  by (simp add: remove_task_def s0_def save_frame split_beta Let_def)

text \<open>
  Claim C6, amended. \<^verbatim>\<open>remove_task(index)\<close> fails exactly when \<open>index\<close> is outside
  \<open>0 \<le> index < len(queue)\<close>; a failure leaves the queue (and all but the error log) as
  it was, a success removes the entry at that position only. On a queue of three tasks,
  \<^verbatim>\<open>remove_task(1)\<close> twice succeeds both times and leaves the task of index 0 alone
  in the queue; a third \<^verbatim>\<open>remove_task(1)\<close> fails and changes nothing.
\<close>

theorem remove_task_by_index:
  "(fst (remove_task ev task_id s) \<longleftrightarrow> 0 \<le> task_id \<and> task_id < int (length (task_queue s)))
   \<and> (\<not> fst (remove_task ev task_id s) \<longrightarrow>
        task_queue (snd (remove_task ev task_id s)) = task_queue s \<and>
        snd (remove_task ev task_id s) = log_error (TaskNotFound task_id) s)
   \<and> (fst (remove_task ev task_id s) \<longrightarrow>
        task_queue (snd (remove_task ev task_id s)) =
          take (nat task_id) (task_queue s) @ drop (Suc (nat task_id)) (task_queue s))
   \<and> (task_queue s = [a, b, c] \<longrightarrow>
        (let s1 = snd (remove_task ev 1 s);
             s2 = snd (remove_task ev' 1 s1);
             s3 = snd (remove_task ev'' 1 s2)
         in fst (remove_task ev 1 s) \<and> task_queue s1 = [a, c] \<and>
            fst (remove_task ev' 1 s1) \<and> task_queue s2 = [a] \<and>
            \<not> fst (remove_task ev'' 1 s2) \<and> task_queue s3 = [a]))"
  by (auto simp: remove_task_def log_error_def save_frame split_beta Let_def)

theorem remove_task_by_index_witness:
  "\<not> fst (remove_task ev0 3 (s0\<lparr>task_queue := [t_now, t_later, t_keep]\<rparr>)) \<and>
   \<not> fst (remove_task ev0 (- 1) (s0\<lparr>task_queue := [t_now, t_later, t_keep]\<rparr>)) \<and>
   task_queue (snd (remove_task ev0 3 (s0\<lparr>task_queue := [t_now, t_later, t_keep]\<rparr>))) =
     [t_now, t_later, t_keep] \<and>
   task_queue (snd (remove_task ev0 1 (s0\<lparr>task_queue := [t_now, t_later, t_keep]\<rparr>))) =
     [t_now, t_keep] \<and>
   \<not> fst (remove_task ev0 1 (snd (remove_task ev0 1 (snd (remove_task ev0 1
          (s0\<lparr>task_queue := [t_now, t_later, t_keep]\<rparr>))))))"
  using remove_task_by_index [of ev0 3 "s0\<lparr>task_queue := [t_now, t_later, t_keep]\<rparr>"]
    remove_task_by_index [of ev0 "- 1" "s0\<lparr>task_queue := [t_now, t_later, t_keep]\<rparr>"]
    remove_task_by_index [of ev0 1 "s0\<lparr>task_queue := [t_now, t_later, t_keep]\<rparr>"
                             t_now t_later t_keep ev0 ev0]
  by (simp add: s0_def Let_def log_error_def)

section \<open>Properties of the classifier\<close>

lemma reminder_keyword:
  "re_search re_reminder (lower ''remind me to call mom at 5pm'') =
     Some (Some CHR ''d'', '' me to call mom at 5pm'', [(1, ''remind'')])"
  by code_simp

lemma reminder_time:
  "re_search re_time (lower ''remind me to call mom at 5pm'') =
     Some (Some CHR ''m'', [], [(1, ''5pm'')])"
  by code_simp

text \<open>
  Claim C8. Without context, the text \<^verbatim>\<open>remind me to call mom at 5pm\<close> is classified
  as \<^verbatim>\<open>reminder\<close> with confidence 0.8, and the only entity is \<^verbatim>\<open>time\<close> with the
  value \<^verbatim>\<open>5pm\<close>, the text of the group after \<^verbatim>\<open>at\<close>. The engine is left as it was.
\<close>

theorem classify_reminder_example:
  "recognize_intent ''remind me to call mom at 5pm'' None s =
     (Inr \<lparr>primary = ''reminder'', confidence = 8 / 10, entities = [(''time'', ''5pm'')],
           intent_context = []\<rparr>, s)"
  by (simp add: recognize_intent_def Let_def reminder_keyword reminder_time extract_entity_def
        group_def)

text \<open>
  Claim C9. The result of \<^verbatim>\<open>_recognize_intent\<close>, a raised exception included, is the
  same in any two engine states for the same text and context, and the call leaves the
  engine, with its task queue, recurring table, behaviour history and patterns, as it
  was.
\<close>

theorem recognize_intent_pure:
  "fst (recognize_intent text ctx s) = fst (recognize_intent text ctx s')
   \<and> snd (recognize_intent text ctx s) = s
   \<and> task_queue (snd (recognize_intent text ctx s)) = task_queue s
   \<and> recurring_tasks (snd (recognize_intent text ctx s)) = recurring_tasks s
   \<and> behavior_history (snd (recognize_intent text ctx s)) = behavior_history s
   \<and> intent_patterns (snd (recognize_intent text ctx s)) = intent_patterns s"
proof -
  have frame: "snd (recognize_intent text ctx s) = s" for s
    by (simp add: recognize_intent_def Let_def split: option.splits)
  have same: "fst (recognize_intent text ctx s) = fst (recognize_intent text ctx s')"
    by (simp add: recognize_intent_def Let_def split: option.splits)
  from frame same show ?thesis by simp
qed

section \<open>Properties of the recurring-task sweep\<close>

lemma stamp_none: "length tasks = n \<Longrightarrow> stamp_fired now (replicate n False) tasks = tasks"
  by (induction tasks arbitrary: n) (auto simp: stamp_fired_def)

lemma copies_none: "copies_fired now (replicate n False) tasks = []"
  by (auto simp: copies_fired_def filter_empty_conv set_zip)

lemma length_crt_fired: "length (crt_fired ev now tasks s) = length tasks"
  by (induction tasks arbitrary: s) (auto split: sum.splits prod.splits bool.splits)

lemma crt_loop_stamp:
  "fst (snd (crt_loop ev now tasks s)) = stamp_fired now (crt_fired ev now tasks s) tasks"
proof (induction tasks arbitrary: s)
  case Nil
  then show ?case by (simp add: stamp_fired_def)
next
  case (Cons task rest)
  have none: "stamp_fired now (False # replicate (length rest) False) (task # rest) = task # rest"
    using stamp_none [of "task # rest" "Suc (length rest)" now] by simp
  show ?case
    using Cons.IH none
    by (auto simp: stamp_fired_def split_beta Let_def split: sum.splits prod.splits bool.splits)
qed

lemma crt_loop_queue:
  "task_queue (snd (snd (crt_loop ev now tasks s))) =
     task_queue s @ copies_fired now (crt_fired ev now tasks s) tasks"
proof (induction tasks arbitrary: s)
  case Nil
  then show ?case by (simp add: copies_fired_def)
next
  case (Cons task rest)
  have none: "copies_fired now (False # replicate (length rest) False) (task # rest) = []"
    using copies_none [of now "Suc (length rest)" "task # rest"] by simp
  have se: "task_queue (snd (should_execute ev now task le s)) = task_queue s" for le
    by (auto simp: should_execute_def random_draw_def split: sum.splits option.splits)
  show ?case
    using Cons.IH none se
    by (auto simp: copies_fired_def split_beta Let_def split: sum.splits prod.splits bool.splits)
qed

lemma zip_replicate_False: "(f, x) \<in> set (zip (replicate n False) xs) \<Longrightarrow> \<not> f"
  by (auto simp: set_zip)

lemma crt_fired_sound:
  "(f, task) \<in> set (zip (crt_fired ev now tasks s) tasks) \<Longrightarrow> f \<Longrightarrow>
   truthy (get task ''active'' (JBool True)) \<and>
   (\<exists>le s0. parse_last_execution task = Inr le \<and>
             fst (should_execute ev now task le s0) = Inr True)"
proof (induction tasks arbitrary: s)
  case Nil
  then show ?case by simp
next
  case (Cons t rest)
  show ?case
  proof (cases "truthy (get t ''active'' (JBool True))")
    case False
    with Cons show ?thesis by auto
  next
    case act: True
    show ?thesis
    proof (cases "parse_last_execution t")
      case (Inl e)
      with act Cons.prems show ?thesis
        using zip_replicate_False [of f task "Suc (length rest)" "t # rest"] by simp
    next
      case (Inr le)
      obtain r s1 where se: "should_execute ev now t le s = (r, s1)"
        by (cases "should_execute ev now t le s")
      show ?thesis
      proof (cases r)
        case (Inl e)
        with act Inr se Cons.prems show ?thesis
          using zip_replicate_False [of f task "Suc (length rest)" "t # rest"] by simp
      next
        case (Inr b)
        show ?thesis
        proof (cases b)
          case True
          have here: "fst (should_execute ev now t le s) = Inr True"
            using se Inr True by simp
          from Cons.prems act \<open>parse_last_execution t = Inr le\<close> se Inr True
          consider "task = t" | s' where "(f, task) \<in> set (zip (crt_fired ev now rest s') rest)"
            by auto
          then show ?thesis
          proof cases
            case 1
            with act \<open>parse_last_execution t = Inr le\<close> here show ?thesis by blast
          next
            case 2
            from Cons.IH [OF 2 Cons.prems(2)] show ?thesis .
          qed
        next
          case False
          from Cons.prems act \<open>parse_last_execution t = Inr le\<close> se Inr False
          have "(f, task) \<in> set (zip (crt_fired ev now rest s1) rest)"
            by auto
          from Cons.IH [OF this Cons.prems(2)] show ?thesis .
        qed
      qed
    qed
  qed
qed

lemma rec_ok_parse:
  "rec_ok task \<Longrightarrow>
   parse_last_execution task =
     Inr (case map_of task ''last_execution'' of Some (JTime t) \<Rightarrow> Some (Naive t) | v \<Rightarrow> None)"
  by (auto simp: rec_ok_def parse_last_execution_def has_key_def get_def
           split: option.splits jval.splits)

lemma rec_ok_should_execute:
  "rec_ok task \<Longrightarrow> parse_last_execution task = Inr le \<Longrightarrow>
   \<exists>b. fst (should_execute ev now task le s) = Inr b"
  by (auto simp: rec_ok_def parse_last_execution_def has_key_def get_def should_execute_def
                 int_hours_def random_draw_def
           split: option.splits jval.splits sum.splits if_splits dt.splits)

lemma crt_loop_ok:
  "\<forall>task \<in> set tasks. rec_ok task \<Longrightarrow> fst (crt_loop ev now tasks s) = Inr ()"
proof (induction tasks arbitrary: s)
  case Nil
  then show ?case by simp
next
  case (Cons t rest)
  then have ok: "rec_ok t" and IH: "\<And>s. fst (crt_loop ev now rest s) = Inr ()"
    by simp_all
  obtain le where le: "parse_last_execution t = Inr le"
    using rec_ok_parse [OF ok] by blast
  obtain b where b: "fst (should_execute ev now t le s) = Inr b"
    using rec_ok_should_execute [OF ok le] by blast
  obtain s1 where s1: "should_execute ev now t le s = (Inr b, s1)"
    using b by (cases "should_execute ev now t le s") simp
  show ?case
    using IH le s1 by (cases b) (simp_all add: split_beta Let_def)
qed

lemma should_execute_interval:
  assumes "map_of task ''interval_hours'' = Some (JInt h)"
      and "- 999999999 \<le> h div 24" and "h div 24 \<le> 999999999"
  shows "should_execute ev now task None s = (Inr True, s)"
    and "should_execute ev now task (Some (Naive t)) s = (Inr (now - t \<ge> h * us_per_hour), s)"
  using assms by (simp_all add: should_execute_def has_key_def get_def int_hours_def)

lemma check_recurring_tasks_fields:
  "fst (check_recurring_tasks ev s) =
     fst (crt_loop ev (clk ev (ticks s)) (recurring_tasks s) (s\<lparr>ticks := Suc (ticks s)\<rparr>))"
  "recurring_tasks (snd (check_recurring_tasks ev s)) =
     fst (snd (crt_loop ev (clk ev (ticks s)) (recurring_tasks s) (s\<lparr>ticks := Suc (ticks s)\<rparr>)))"
  "task_queue (snd (check_recurring_tasks ev s)) =
     task_queue (snd (snd (crt_loop ev (clk ev (ticks s)) (recurring_tasks s)
                             (s\<lparr>ticks := Suc (ticks s)\<rparr>))))"
  by (simp_all add: check_recurring_tasks_def read_clock_def split_beta)

lemma stamp_fired_nth:
  "length fired = length tasks \<Longrightarrow> i < length tasks \<Longrightarrow>
   stamp_fired now fired tasks ! i =
     (if fired ! i then AList.update ''last_execution'' (JTime now) (tasks ! i) else tasks ! i)"
  by (simp add: stamp_fired_def)

lemma zip_nth_mem:
  "length fired = length tasks \<Longrightarrow> i < length tasks \<Longrightarrow>
   (fired ! i, tasks ! i) \<in> set (zip fired tasks)"
  by (auto simp: in_set_zip)

text \<open>
  Claim C2. Whether the sweep returns or raises, the table keeps its length and every
  record keeps all its keys and values other than \<^verbatim>\<open>last_execution\<close>. There are
  flags, one per record and true only on active records, such that the table afterwards
  is the old one with \<^verbatim>\<open>last_execution = now\<close> set on the flagged records, and the
  queue afterwards is the old queue followed by one copy, stamped with
  \<^verbatim>\<open>scheduled_time = now\<close>, of each flagged record, in table order.
\<close>

theorem recurring_sweep_keeps_records:
  "length (recurring_tasks (snd (check_recurring_tasks ev s))) = length (recurring_tasks s)
   \<and> (\<forall>i < length (recurring_tasks s). \<forall>k. k \<noteq> ''last_execution'' \<longrightarrow>
         map_of (recurring_tasks (snd (check_recurring_tasks ev s)) ! i) k =
         map_of (recurring_tasks s ! i) k)
   \<and> (\<exists>fired. length fired = length (recurring_tasks s)
         \<and> recurring_tasks (snd (check_recurring_tasks ev s)) =
             stamp_fired (clk ev (ticks s)) fired (recurring_tasks s)
         \<and> task_queue (snd (check_recurring_tasks ev s)) =
             task_queue s @ copies_fired (clk ev (ticks s)) fired (recurring_tasks s)
         \<and> (\<forall>i < length fired. fired ! i \<longrightarrow>
               truthy (get (recurring_tasks s ! i) ''active'' (JBool True))))"
proof -
  let ?now = "clk ev (ticks s)"
  let ?s1 = "s\<lparr>ticks := Suc (ticks s)\<rparr>"
  let ?T = "recurring_tasks s"
  let ?fired = "crt_fired ev ?now ?T ?s1"
  let ?T' = "recurring_tasks (snd (check_recurring_tasks ev s))"
  have len: "length ?fired = length ?T"
    by (rule length_crt_fired)
  have table: "?T' = stamp_fired ?now ?fired ?T"
    by (simp add: check_recurring_tasks_fields crt_loop_stamp)
  have queue: "task_queue (snd (check_recurring_tasks ev s)) =
                 task_queue s @ copies_fired ?now ?fired ?T"
    by (simp add: check_recurring_tasks_fields crt_loop_queue)
  have act: "\<forall>i < length ?fired. ?fired ! i \<longrightarrow> truthy (get (?T ! i) ''active'' (JBool True))"
    using crt_fired_sound [OF zip_nth_mem [OF len]] len by auto
  have l: "length ?T' = length ?T"
    using len by (simp add: table stamp_fired_def)
  have keys: "\<forall>i < length ?T. \<forall>k. k \<noteq> ''last_execution'' \<longrightarrow> map_of (?T' ! i) k = map_of (?T ! i) k"
    using len by (simp add: table stamp_fired_nth update_conv')
  from l keys len table queue act show ?thesis by blast
qed

theorem recurring_sweep_keeps_records_witness:
  "recurring_tasks (snd (check_recurring_tasks ev0 (s0\<lparr>recurring_tasks := [t_off, t_daily]\<rparr>))) =
     [t_off, t_daily @ [(''last_execution'', JTime 1000)]] \<and>
   task_queue (snd (check_recurring_tasks ev0 (s0\<lparr>recurring_tasks := [t_off, t_daily]\<rparr>))) =
     [t_daily @ [(''scheduled_time'', JTime 1000)]]"
  using recurring_sweep_keeps_records [of ev0 "s0\<lparr>recurring_tasks := [t_off, t_daily]\<rparr>"]
  by (simp add: check_recurring_tasks_def read_clock_def s0_def ev0_def t_off_def t_daily_def
        get_def has_key_def parse_last_execution_def should_execute_def int_hours_def)

lemma crt_fired_reaches:
  "i < length tasks \<Longrightarrow>
   fst (crt_loop ev now (take i tasks) s) = Inr () \<Longrightarrow>
   truthy (get (tasks ! i) ''active'' (JBool True)) \<Longrightarrow>
   parse_last_execution (tasks ! i) = Inr le \<Longrightarrow>
   \<forall>s0. fst (should_execute ev now (tasks ! i) le s0) = Inr True \<Longrightarrow>
   crt_fired ev now tasks s ! i"
proof (induction tasks arbitrary: i s)
  case Nil
  then show ?case by simp
next
  case (Cons t rest)
  show ?case
  proof (cases i)
    case 0
    with Cons.prems have act: "truthy (get t ''active'' (JBool True))"
      and p: "parse_last_execution t = Inr le"
      and d: "fst (should_execute ev now t le s) = Inr True"
      by simp_all
    obtain s1 where "should_execute ev now t le s = (Inr True, s1)"
      using d by (cases "should_execute ev now t le s") simp
    with 0 act p show ?thesis by simp
  next
    case (Suc j)
    with Cons.prems have j: "j < length rest"
      and pre: "fst (crt_loop ev now (t # take j rest) s) = Inr ()"
      and act: "truthy (get (rest ! j) ''active'' (JBool True))"
      and p: "parse_last_execution (rest ! j) = Inr le"
      and d: "\<forall>s0. fst (should_execute ev now (rest ! j) le s0) = Inr True"
      by simp_all
    show ?thesis
    proof (cases "truthy (get t ''active'' (JBool True))")
      case False
      with pre have "fst (crt_loop ev now (take j rest) s) = Inr ()"
        by (simp add: split_beta)
      from Cons.IH [OF j this act p d] False Suc show ?thesis by simp
    next
      case tact: True
      show ?thesis
      proof (cases "parse_last_execution t")
        case (Inl e)
        with tact pre show ?thesis by simp
      next
        case (Inr le')
        obtain r s1 where se: "should_execute ev now t le' s = (r, s1)"
          by (cases "should_execute ev now t le' s")
        show ?thesis
        proof (cases r)
          case (Inl e)
          with tact Inr se pre show ?thesis by simp
        next
          case rb: (Inr b)
          show ?thesis
          proof (cases b)
            case True
            let ?s2 = "s1\<lparr>task_queue := task_queue s1 @
                           [AList.update ''scheduled_time'' (JTime now) t]\<rparr>"
            from pre tact Inr se rb True
            have "fst (crt_loop ev now (take j rest) ?s2) = Inr ()"
              by (simp add: split_beta Let_def)
            from Cons.IH [OF j this act p d] tact Inr se rb True Suc
            show ?thesis by simp
          next
            case False
            from pre tact Inr se rb False
            have "fst (crt_loop ev now (take j rest) s1) = Inr ()"
              by (simp add: split_beta)
            from Cons.IH [OF j this act p d] tact Inr se rb False Suc
            show ?thesis by simp
          qed
        qed
      qed
    qed
  qed
qed

text \<open>
  Claim C3, as stated, has the task fire on the first sweep after it was added.
  \<^verbatim>\<open>add_recurring_task\<close> accepts a record whose \<^verbatim>\<open>interval_hours\<close> is no number; the
  sweep raises at that record and does not reach the records after it. Here the task
  with \<^verbatim>\<open>interval_hours = 24\<close> is added after such a record: the sweep raises, queues
  nothing and leaves the task without \<^verbatim>\<open>last_execution\<close>.
\<close>

theorem interval_task_not_reached:
  "(let s1 = snd (add_recurring_task ev0 t_badrec s0);
        s2 = snd (add_recurring_task ev0 t_daily s1);
        r = check_recurring_tasks ev0 s2
    in fst (add_recurring_task ev0 t_badrec s0) \<and> fst (add_recurring_task ev0 t_daily s1) \<and>
       recurring_tasks s2 =
         [t_badrec @ [(''created'', JTime 1000), (''active'', JBool True)],
          t_daily @ [(''created'', JTime 1002), (''active'', JBool True)]] \<and>
       fst r = Inl TypeError \<and> task_queue (snd r) = [] \<and>
       recurring_tasks (snd r) = recurring_tasks s2)"
  by (simp add: add_recurring_task_def save_intent_data_def check_recurring_tasks_def
        read_clock_def s0_def ev0_def t_badrec_def t_daily_def get_def has_key_def
        parse_last_execution_def should_execute_def Let_def split_beta)

text \<open>
  Claim C3, amended. The \<open>i\<close>-th record of the table is active with
  \<^verbatim>\<open>interval_hours = 24\<close>, and the sweep reads the clock at \<open>now\<close>. With the flags of
  the fired records as in C2: when the loop passes the records before it without
  raising, the record fires if it has no \<^verbatim>\<open>last_execution\<close>, and with
  \<^verbatim>\<open>last_execution = t0\<close> if \<open>now - t0\<close> is at least 24 hours (86400000000
  microseconds); with \<^verbatim>\<open>last_execution = t0\<close> it never fires while \<open>now - t0\<close> is less.
  When it has fired it is again an active record with \<^verbatim>\<open>interval_hours = 24\<close>, now with
  \<^verbatim>\<open>last_execution = now\<close>. The loop passes the records before it without raising
  when each of them satisfies \<open>rec_ok\<close>.
\<close>

theorem interval_task_fires_once_per_day:
  assumes "i < length (recurring_tasks s)"
      and "map_of (recurring_tasks s ! i) ''interval_hours'' = Some (JInt 24)"
      and "truthy (get (recurring_tasks s ! i) ''active'' (JBool True))"
  shows "\<exists>fired. length fired = length (recurring_tasks s)
         \<and> recurring_tasks (snd (check_recurring_tasks ev s)) =
             stamp_fired (clk ev (ticks s)) fired (recurring_tasks s)
         \<and> task_queue (snd (check_recurring_tasks ev s)) =
             task_queue s @ copies_fired (clk ev (ticks s)) fired (recurring_tasks s)
         \<and> (fst (crt_loop ev (clk ev (ticks s)) (take i (recurring_tasks s))
                   (s\<lparr>ticks := Suc (ticks s)\<rparr>)) = Inr () \<and>
            \<not> has_key ''last_execution'' (recurring_tasks s ! i) \<longrightarrow> fired ! i)
         \<and> (\<forall>t0. map_of (recurring_tasks s ! i) ''last_execution'' = Some (JTime t0) \<longrightarrow>
               (fired ! i \<longrightarrow> clk ev (ticks s) - t0 \<ge> 86400000000) \<and>
               (fst (crt_loop ev (clk ev (ticks s)) (take i (recurring_tasks s))
                      (s\<lparr>ticks := Suc (ticks s)\<rparr>)) = Inr () \<and>
                clk ev (ticks s) - t0 \<ge> 86400000000 \<longrightarrow> fired ! i))
         \<and> (fired ! i \<longrightarrow>
               map_of (recurring_tasks (snd (check_recurring_tasks ev s)) ! i) ''last_execution'' =
                 Some (JTime (clk ev (ticks s))) \<and>
               map_of (recurring_tasks (snd (check_recurring_tasks ev s)) ! i) ''interval_hours'' =
                 Some (JInt 24) \<and>
               truthy (get (recurring_tasks (snd (check_recurring_tasks ev s)) ! i) ''active''
                         (JBool True)))
         \<and> ((\<forall>task \<in> set (take i (recurring_tasks s)). rec_ok task) \<longrightarrow>
               fst (crt_loop ev (clk ev (ticks s)) (take i (recurring_tasks s))
                      (s\<lparr>ticks := Suc (ticks s)\<rparr>)) = Inr ())"
proof -
  let ?now = "clk ev (ticks s)"
  let ?s1 = "s\<lparr>ticks := Suc (ticks s)\<rparr>"
  let ?T = "recurring_tasks s"
  let ?task = "?T ! i"
  let ?fired = "crt_fired ev ?now ?T ?s1"
  let ?T' = "recurring_tasks (snd (check_recurring_tasks ev s))"
  let ?reached = "fst (crt_loop ev ?now (take i ?T) ?s1) = Inr ()"
  have len: "length ?fired = length ?T"
    by (rule length_crt_fired)
  have table: "?T' = stamp_fired ?now ?fired ?T"
    by (simp add: check_recurring_tasks_fields crt_loop_stamp)
  have queue: "task_queue (snd (check_recurring_tasks ev s)) =
                 task_queue s @ copies_fired ?now ?fired ?T"
    by (simp add: check_recurring_tasks_fields crt_loop_queue)
  have mem: "(?fired ! i, ?task) \<in> set (zip ?fired ?T)"
    by (rule zip_nth_mem [OF len assms(1)])
  have range: "- 999999999 \<le> (24::int) div 24" "(24::int) div 24 \<le> 999999999"
    by simp_all
  note dec = should_execute_interval [OF assms(2) range]
  have day: "24 * us_per_hour = 86400000000"
    by (simp add: us_per_hour_def)
  have first: "?fired ! i" if "?reached" and "\<not> has_key ''last_execution'' ?task"
  proof -
    have p: "parse_last_execution ?task = Inr None"
      using that(2) by (simp add: parse_last_execution_def)
    show ?thesis
      by (rule crt_fired_reaches [OF assms(1) that(1) assms(3) p]) (simp add: dec)
  qed
  have early: "?now - t0 \<ge> 86400000000"
    if "map_of ?task ''last_execution'' = Some (JTime t0)" and "?fired ! i" for t0
  proof -
    have p: "parse_last_execution ?task = Inr (Some (Naive t0))"
      using that(1) by (simp add: parse_last_execution_def has_key_def get_def)
    from crt_fired_sound [OF mem that(2)] p show ?thesis
      by (auto simp: dec day)
  qed
  have late: "?fired ! i"
    if "map_of ?task ''last_execution'' = Some (JTime t0)" and "?reached"
      and "?now - t0 \<ge> 86400000000" for t0
  proof -
    have p: "parse_last_execution ?task = Inr (Some (Naive t0))"
      using that(1) by (simp add: parse_last_execution_def has_key_def get_def)
    show ?thesis
      using that(3)
      by (intro crt_fired_reaches [OF assms(1) that(2) assms(3) p]) (simp add: dec day)
  qed
  have after: "map_of (?T' ! i) ''last_execution'' = Some (JTime ?now) \<and>
               map_of (?T' ! i) ''interval_hours'' = Some (JInt 24) \<and>
               truthy (get (?T' ! i) ''active'' (JBool True))"
    if "?fired ! i"
  proof -
    have eq: "?T' ! i = AList.update ''last_execution'' (JTime ?now) ?task"
      using that len assms(1) by (simp add: table stamp_fired_nth)
    show ?thesis
      using assms(2,3) by (simp add: eq update_conv' get_def)
  qed
  have pre: "?reached" if "\<forall>task \<in> set (take i ?T). rec_ok task"
    using crt_loop_ok [OF that] by simp
  from len table queue first early late after pre show ?thesis by blast
qed

theorem interval_task_fires_once_per_day_witness:
  "(let s1 = snd (add_recurring_task ev0 t_daily s0);
        s2 = snd (check_recurring_tasks ev0 s1);
        s3 = snd (check_recurring_tasks ev0 s2)
    in task_queue s2 = [t_daily @ [(''created'', JTime 1000), (''active'', JBool True),
                                   (''scheduled_time'', JTime 1002)]] \<and>
       recurring_tasks s2 = [t_daily @ [(''created'', JTime 1000), (''active'', JBool True),
                                        (''last_execution'', JTime 1002)]] \<and>
       task_queue s3 = task_queue s2 \<and> recurring_tasks s3 = recurring_tasks s2)
   \<and> (let s1 = snd (add_recurring_task ev_day t_daily s0);
           s2 = snd (check_recurring_tasks ev_day s1);
           s3 = snd (check_recurring_tasks ev_day s2)
       in length (task_queue s2) = 1 \<and> length (task_queue s3) = 2 \<and>
          map_of (recurring_tasks s3 ! 0) ''last_execution'' = Some (JTime (3 * us_per_day)))
   \<and> (let s1 = snd (add_recurring_task ev0 t_daily s0);
           s2 = snd (add_recurring_task ev0 t_badrec s1);
           r = check_recurring_tasks ev0 s2
       in fst r = Inl TypeError \<and> length (task_queue (snd r)) = 1 \<and>
          map_of (recurring_tasks (snd r) ! 0) ''last_execution'' = Some (JTime 1004))"
  using interval_task_fires_once_per_day
          [where i = 0 and s = "snd (add_recurring_task ev0 t_daily s0)" and ev = ev0]
        interval_task_fires_once_per_day
          [where i = 0
             and s = "snd (check_recurring_tasks ev0 (snd (add_recurring_task ev0 t_daily s0)))"
             and ev = ev0]
        interval_task_fires_once_per_day
          [where i = 0 and s = "snd (add_recurring_task ev_day t_daily s0)" and ev = ev_day]
        interval_task_fires_once_per_day
          [where i = 0
             and s = "snd (add_recurring_task ev0 t_badrec (snd (add_recurring_task ev0 t_daily s0)))"
             and ev = ev0]
  by (simp add: add_recurring_task_def save_intent_data_def check_recurring_tasks_def
        read_clock_def s0_def ev0_def ev_day_def t_daily_def t_badrec_def get_def has_key_def
        parse_last_execution_def should_execute_def int_hours_def us_per_hour_def us_per_day_def
        rec_ok_def Let_def split_beta)

section \<open>Properties of the background loop\<close>

lemma ptq_loop_ctl:
  "active (snd (ptq_loop (execute_task ev) now its rem s)) = active s \<and>
   sleeps (snd (ptq_loop (execute_task ev) now its rem s)) = sleeps s"
proof (induction its arbitrary: rem s)
  case Nil
  then show ?case by simp
next
  case (Cons p its)
  obtain i task where p: "p = (i, task)" by (cases p)
  show ?case
    using Cons.IH
    by (auto simp: p split_beta execute_task_fields split: sum.splits bool.splits)
qed

lemma process_task_queue_ctl:
  "active (snd (process_task_queue ev s)) = active s \<and>
   sleeps (snd (process_task_queue ev s)) = sleeps s"
  using ptq_loop_ctl [of ev "clk ev (ticks s)" "enumerate 0 (task_queue s)" "[]"
                         "s\<lparr>ticks := Suc (ticks s)\<rparr>"]
  by (auto simp: process_task_queue_def process_task_queue_with_def read_clock_def
           split: prod.splits sum.splits)

lemma should_execute_ctl:
  "active (snd (should_execute ev now task le s)) = active s \<and>
   sleeps (snd (should_execute ev now task le s)) = sleeps s"
  by (auto simp: should_execute_def random_draw_def split: sum.splits option.splits)

lemma crt_loop_ctl:
  "active (snd (snd (crt_loop ev now tasks s))) = active s \<and>
   sleeps (snd (snd (crt_loop ev now tasks s))) = sleeps s"
proof (induction tasks arbitrary: s)
  case Nil
  then show ?case by simp
next
  case (Cons task rest)
  show ?case
    using Cons.IH should_execute_ctl [of ev now task _ s]
    by (auto simp: split_beta Let_def split: sum.splits prod.splits bool.splits)
qed

lemma check_recurring_tasks_ctl:
  "active (snd (check_recurring_tasks ev s)) = active s \<and>
   sleeps (snd (check_recurring_tasks ev s)) = sleeps s"
  using crt_loop_ctl [of ev "clk ev (ticks s)" "recurring_tasks s" "s\<lparr>ticks := Suc (ticks s)\<rparr>"]
  by (simp add: check_recurring_tasks_def read_clock_def split_beta)

lemma store_patterns_ctl:
  "active (fold (store_pattern ev) ps s) = active s \<and>
   sleeps (fold (store_pattern ev) ps s) = sleeps s"
  by (induction ps arbitrary: s) (simp_all add: store_pattern_def read_clock_def Let_def)

lemma analyze_behavior_patterns_ctl:
  "active (analyze_behavior_patterns ev s) = active s \<and>
   sleeps (analyze_behavior_patterns ev s) = sleeps s"
  by (simp add: analyze_behavior_patterns_def find_time_patterns_def find_sequence_patterns_def
        random_draw_def store_patterns_ctl save_frame Let_def split_beta)

lemma cycle_body_ctl:
  "active (snd (cycle_body ev s)) = active s \<and>
   sleeps (snd (cycle_body ev s)) =
     (if isl (fst (cycle_body ev s)) then sleeps s else sleeps s @ [10])"
proof -
  obtain r1 s1 where p: "process_task_queue ev s = (r1, s1)"
    by (cases "process_task_queue ev s")
  obtain r2 s2 where c: "check_recurring_tasks ev s1 = (r2, s2)"
    by (cases "check_recurring_tasks ev s1")
  have 1: "active s1 = active s \<and> sleeps s1 = sleeps s"
    using process_task_queue_ctl [of ev s] p by simp
  have 2: "active s2 = active s1 \<and> sleeps s2 = sleeps s1"
    using check_recurring_tasks_ctl [of ev s1] c by simp
  have 3: "active (analyze_behavior_patterns ev s2) = active s2 \<and>
           sleeps (analyze_behavior_patterns ev s2) = sleeps s2"
    by (rule analyze_behavior_patterns_ctl)
  show ?thesis
    using 1 2 3
    by (auto simp: cycle_body_def p c py_sleep_def random_draw_def save_frame Let_def
          split_beta split: sum.splits)
qed

lemma cycle_ctl:
  "active (cycle ev s) = active s \<and>
   sleeps (cycle ev s) = sleeps s @ [if isl (fst (cycle_body ev s)) then 60 else 10]"
  using cycle_body_ctl [of ev s]
  by (auto simp: cycle_def py_sleep_def log_error_def split: prod.splits sum.splits)

lemma loop_exit:
  "background_loop ev fuel k s = Some s' \<Longrightarrow>
   \<not> active s' \<and> (\<not> active s \<or> (\<exists>j. k \<le> j \<and> j < k + fuel \<and> stop_called ev j))"
proof (induction fuel arbitrary: k s)
  case 0
  then show ?case by simp
next
  case (Suc fuel)
  show ?case
  proof (cases "active s")
    case False
    with Suc.prems show ?thesis by simp
  next
    case True
    let ?s1 = "other_thread ev k (cycle ev s)"
    from Suc.prems True have "background_loop ev fuel (Suc k) ?s1 = Some s'"
      by simp
    from Suc.IH [OF this]
    have n: "\<not> active s'"
      and d: "\<not> active ?s1 \<or> (\<exists>j. Suc k \<le> j \<and> j < Suc k + fuel \<and> stop_called ev j)"
      by simp_all
    from d have "\<exists>j. k \<le> j \<and> j < k + Suc fuel \<and> stop_called ev j"
    proof
      assume "\<not> active ?s1"
      with True cycle_ctl [of ev s] have "stop_called ev k"
        by (auto simp: other_thread_def split: if_splits)
      then show ?thesis by (intro exI [of _ k]) simp
    next
      assume "\<exists>j. Suc k \<le> j \<and> j < Suc k + fuel \<and> stop_called ev j"
      then obtain j where "Suc k \<le> j" "j < Suc k + fuel" "stop_called ev j" by blast
      then show ?thesis by (intro exI [of _ j]) simp
    qed
    with n show ?thesis by simp
  qed
qed

lemma loop_runs:
  "active s \<Longrightarrow> \<forall>j. k \<le> j \<and> j < k + n \<longrightarrow> \<not> stop_called ev j \<Longrightarrow>
   background_loop ev n k s = None"
proof (induction n arbitrary: k s)
  case 0
  then show ?case by simp
next
  case (Suc n)
  from Suc.prems(2) have here: "\<not> stop_called ev k"
    and rest: "\<forall>j. Suc k \<le> j \<and> j < Suc k + n \<longrightarrow> \<not> stop_called ev j"
    by simp_all
  have act: "active (other_thread ev k (cycle ev s))"
    using here Suc.prems(1) cycle_ctl [of ev s] by (simp add: other_thread_def)
  from Suc.IH [OF act rest] Suc.prems(1) show ?case by simp
qed

text \<open>
  Claim C7. One pass of the loop never raises: when its \<^verbatim>\<open>try\<close> block raises \<open>e\<close>, the
  pass logs \<open>e\<close> and sleeps 60 seconds; otherwise it sleeps 10 seconds; each pass sleeps
  exactly once and leaves the \<^verbatim>\<open>active\<close> flag as it found it. The loop leaves its
  \<^verbatim>\<open>while\<close> only with the flag cleared, which needs the flag to be clear at the start
  or a call of \<^verbatim>\<open>stop_background_processing\<close> during one of the cycles run. With the
  flag set and no such call during \<open>n\<close> cycles the loop is still running after them,
  whatever was raised; with a call during the first cycle it ends after that cycle.
\<close>

theorem background_loop_survives_errors:
  "(\<forall>e s1. cycle_body ev s = (Inl e, s1) \<longrightarrow>
       cycle ev s = py_sleep 60 (log_error (LoopError e) s1))
   \<and> (\<forall>s1. cycle_body ev s = (Inr (), s1) \<longrightarrow> cycle ev s = s1)
   \<and> sleeps (cycle ev s) = sleeps s @ [if isl (fst (cycle_body ev s)) then 60 else 10]
   \<and> active (cycle ev s) = active s
   \<and> (\<forall>s'. background_loop ev fuel k s = Some s' \<longrightarrow>
         \<not> active s' \<and> (\<not> active s \<or> (\<exists>j. k \<le> j \<and> j < k + fuel \<and> stop_called ev j)))
   \<and> (active s \<and> (\<forall>j. k \<le> j \<and> j < k + n \<longrightarrow> \<not> stop_called ev j) \<longrightarrow>
         background_loop ev n k s = None)
   \<and> (active s \<and> stop_called ev k \<longrightarrow>
         background_loop ev (Suc (Suc fuel)) k s = Some ((cycle ev s)\<lparr>active := False\<rparr>))"
proof -
  have a: "\<forall>e s1. cycle_body ev s = (Inl e, s1) \<longrightarrow>
             cycle ev s = py_sleep 60 (log_error (LoopError e) s1)"
    by (simp add: cycle_def)
  have b: "\<forall>s1. cycle_body ev s = (Inr (), s1) \<longrightarrow> cycle ev s = s1"
    by (simp add: cycle_def)
  have c: "\<forall>s'. background_loop ev fuel k s = Some s' \<longrightarrow>
             \<not> active s' \<and> (\<not> active s \<or> (\<exists>j. k \<le> j \<and> j < k + fuel \<and> stop_called ev j))"
    using loop_exit by blast
  have d: "active s \<and> (\<forall>j. k \<le> j \<and> j < k + n \<longrightarrow> \<not> stop_called ev j) \<longrightarrow>
             background_loop ev n k s = None"
    using loop_runs by blast
  have e: "active s \<and> stop_called ev k \<longrightarrow>
             background_loop ev (Suc (Suc fuel)) k s = Some ((cycle ev s)\<lparr>active := False\<rparr>)"
    by (simp add: other_thread_def)
  from a b c d e cycle_ctl [of ev s] show ?thesis by simp
qed

lemma cycle_bad:
  "cycle_body ev (s\<lparr>task_queue := [t_bad]\<rparr>) =
     (Inl ValueError, s\<lparr>task_queue := [t_bad], ticks := Suc (ticks s)\<rparr>)"
  by (simp add: cycle_body_def process_task_queue_def process_task_queue_with_def
        read_clock_def t_bad_def has_key_def get_def)

theorem background_loop_survives_errors_witness:
  "cycle ev0 (s0\<lparr>task_queue := [t_bad]\<rparr>) =
     s0\<lparr>task_queue := [t_bad], ticks := 1, sleeps := [60], error_log := [LoopError ValueError]\<rparr>
   \<and> cycle ev0 s0 = s0\<lparr>ticks := 2, draws := 2, sleeps := [10]\<rparr>
   \<and> background_loop ev0 3 0 (s0\<lparr>task_queue := [t_bad]\<rparr>) = None
   \<and> background_loop ev_stop 3 0 (s0\<lparr>task_queue := [t_bad]\<rparr>) =
       Some (s0\<lparr>task_queue := [t_bad], active := False, ticks := 2, sleeps := [60, 60],
                error_log := [LoopError ValueError, LoopError ValueError]\<rparr>)"
proof -
  let ?bad = "s0\<lparr>task_queue := [t_bad]\<rparr>"
  have 1: "cycle ev0 ?bad =
     s0\<lparr>task_queue := [t_bad], ticks := 1, sleeps := [60], error_log := [LoopError ValueError]\<rparr>"
    using background_loop_survives_errors [of ev0 ?bad 0 0 0] cycle_bad [of ev0 s0]
    by (simp add: py_sleep_def log_error_def s0_def)
  have 2: "cycle ev0 s0 = s0\<lparr>ticks := 2, draws := 2, sleeps := [10]\<rparr>"
    by (simp add: cycle_def cycle_body_def process_task_queue_def process_task_queue_with_def
          check_recurring_tasks_def analyze_behavior_patterns_def random_draw_def read_clock_def py_sleep_def
          s0_def ev0_def)
  have 3: "background_loop ev0 3 0 ?bad = None"
    using background_loop_survives_errors [of ev0 ?bad 0 0 3]
    by (simp add: s0_def ev0_def)
  have 4: "background_loop ev_stop 3 0 ?bad =
       Some (s0\<lparr>task_queue := [t_bad], active := False, ticks := 2, sleeps := [60, 60],
                error_log := [LoopError ValueError, LoopError ValueError]\<rparr>)"
    using cycle_bad [of ev_stop s0] cycle_bad [of ev_stop "s0\<lparr>ticks := 1, sleeps := [60],
                                    error_log := [LoopError ValueError]\<rparr>"]
    by (simp add: numeral_3_eq_3 cycle_def other_thread_def py_sleep_def log_error_def
          s0_def ev_stop_def)
  from 1 2 3 4 show ?thesis by simp
qed

end
